theory Spec2Isabelle
  imports Main "HOL-Library.Sublist" "HOL-Library.Multiset" "HOL-Library.Word"
begin

section \<open>Strings of the Go standard library used by catch.go\<close>

text \<open>
  A Go string is a sequence of bytes, here a \<open>string\<close> (a list of \<open>char\<close>).
  \<open>strings.HasPrefix\<close> and \<open>strings.Contains\<close> compare bytes.
\<close>

fun HasPrefix :: "string \<Rightarrow> string \<Rightarrow> bool" where
  "HasPrefix s [] = True"
| "HasPrefix [] (p # ps) = False"
| "HasPrefix (c # cs) (p # ps) = (c = p \<and> HasPrefix cs ps)"

fun Contains :: "string \<Rightarrow> string \<Rightarrow> bool" where
  "Contains [] substr = (substr = [])"
| "Contains (c # cs) substr = (HasPrefix (c # cs) substr \<or> Contains cs substr)"

text \<open>
  \<open>strings.ToLower\<close> is Unicode aware, so the functions that call it take it as the
  parameter \<open>ToLower\<close>. On a string of ASCII bytes it is \<open>ToLowerASCII\<close>: Go maps
  \<open>A..Z\<close> to \<open>a..z\<close> there and keeps every other byte.
\<close>

definition lowerByte :: "char \<Rightarrow> char" where
  "lowerByte c =
     (case map_of (zip ''ABCDEFGHIJKLMNOPQRSTUVWXYZ'' ''abcdefghijklmnopqrstuvwxyz'') c of
        Some d \<Rightarrow> d
      | None \<Rightarrow> c)"

definition ToLowerASCII :: "string \<Rightarrow> string" where
  "ToLowerASCII s = map lowerByte s"

section \<open>Classifier: generateSmartErrorCode and generateSmartSuggestion\<close>

text \<open>
  Both functions lower-case \<open>err.Error()\<close> and run one \<open>switch\<close> whose cases are tried
  from top to bottom. \<open>errMsg\<close> is the text \<open>err.Error()\<close> returns.
\<close>

definition generateSmartErrorCode :: "(string \<Rightarrow> string) \<Rightarrow> string \<Rightarrow> string" where
  "generateSmartErrorCode ToLower errMsg =
     (let errStr = ToLower errMsg in
      if Contains errStr ''no such file'' then ''FS001''
      else if Contains errStr ''permission denied'' then ''FS002''
      else if Contains errStr ''file exists'' then ''FS003''
      else if Contains errStr ''is a directory'' then ''FS004''
      else if Contains errStr ''not a directory'' then ''FS005''
      else if Contains errStr ''connection refused'' then ''NET001''
      else if Contains errStr ''timeout'' then ''NET002''
      else if Contains errStr ''host not found'' then ''NET003''
      else if Contains errStr ''network unreachable'' then ''NET004''
      else if Contains errStr ''parse'' then ''DATA001''
      else if Contains errStr ''invalid format'' then ''DATA002''
      else if Contains errStr ''decode'' then ''DATA003''
      else if Contains errStr ''encode'' then ''DATA004''
      else if Contains errStr ''index out of range'' then ''LOGIC001''
      else if Contains errStr ''nil pointer'' then ''LOGIC002''
      else if Contains errStr ''assertion failed'' then ''LOGIC003''
      else ''GEN000'')"

definition generateSmartSuggestion :: "(string \<Rightarrow> string) \<Rightarrow> string \<Rightarrow> string" where
  "generateSmartSuggestion ToLower errMsg =
     (let errStr = ToLower errMsg in
      if Contains errStr ''no such file''
        then ''verify the file path exists, check for typos, or create the file first''
      else if Contains errStr ''permission denied''
        then ''run with appropriate permissions, check file ownership, or modify file permissions''
      else if Contains errStr ''connection refused''
        then ''ensure the target service is running, check firewall settings, or verify the address and port''
      else if Contains errStr ''timeout''
        then ''increase timeout duration, check network connectivity, or optimize the operation''
      else if Contains errStr ''parse''
        then ''validate input format, check for encoding issues, or review the data structure''
      else if Contains errStr ''index out of range''
        then ''add bounds checking, validate array/slice length, or review loop conditions''
      else if Contains errStr ''nil pointer''
        then ''add nil checks, initialize variables properly, or review pointer assignments''
      else ''check the error context, consult documentation, or add debug logging'')"

subsection \<open>The pattern table of the specification\<close>

text \<open>
  The specification describes the classifier as an ordered table of patterns, searched
  for the first pattern that occurs in the lower-cased message. \<open>first_match\<close> is that
  search; \<open>code_table\<close> lists the patterns in the documented priority order
  (filesystem, network, data, logic).
\<close>

definition first_match :: "(string \<times> 'a) list \<Rightarrow> 'a \<Rightarrow> string \<Rightarrow> 'a" where
  "first_match tbl dflt s =
     (case find (\<lambda>(p, r). Contains s p) tbl of Some (p, r) \<Rightarrow> r | None \<Rightarrow> dflt)"

definition fs_table :: "(string \<times> string) list" where
  "fs_table =
     [(''no such file'', ''FS001''), (''permission denied'', ''FS002''),
      (''file exists'', ''FS003''), (''is a directory'', ''FS004''),
      (''not a directory'', ''FS005'')]"

definition net_table :: "(string \<times> string) list" where
  "net_table =
     [(''connection refused'', ''NET001''), (''timeout'', ''NET002''),
      (''host not found'', ''NET003''), (''network unreachable'', ''NET004'')]"

definition data_table :: "(string \<times> string) list" where
  "data_table =
     [(''parse'', ''DATA001''), (''invalid format'', ''DATA002''),
      (''decode'', ''DATA003''), (''encode'', ''DATA004'')]"

definition logic_table :: "(string \<times> string) list" where
  "logic_table =
     [(''index out of range'', ''LOGIC001''), (''nil pointer'', ''LOGIC002''),
      (''assertion failed'', ''LOGIC003'')]"

definition code_table :: "(string \<times> string) list" where
  "code_table = fs_table @ net_table @ data_table @ logic_table"

definition matches_none :: "(string \<times> 'a) list \<Rightarrow> string \<Rightarrow> bool" where
  "matches_none tbl s = list_all (\<lambda>(p, r). \<not> Contains s p) tbl"

text \<open>
  The patterns for which \<open>generateSmartSuggestion\<close> has a case of its own, each with
  the code \<open>generateSmartErrorCode\<close> gives the same pattern.
\<close>

definition paired_table :: "(string \<times> string \<times> string) list" where
  "paired_table =
     [(''no such file'', ''FS001'',
         ''verify the file path exists, check for typos, or create the file first''),
      (''permission denied'', ''FS002'',
         ''run with appropriate permissions, check file ownership, or modify file permissions''),
      (''connection refused'', ''NET001'',
         ''ensure the target service is running, check firewall settings, or verify the address and port''),
      (''timeout'', ''NET002'',
         ''increase timeout duration, check network connectivity, or optimize the operation''),
      (''parse'', ''DATA001'',
         ''validate input format, check for encoding issues, or review the data structure''),
      (''index out of range'', ''LOGIC001'',
         ''add bounds checking, validate array/slice length, or review loop conditions''),
      (''nil pointer'', ''LOGIC002'',
         ''add nil checks, initialize variables properly, or review pointer assignments'')]"

definition generic_suggestion :: string where
  "generic_suggestion = ''check the error context, consult documentation, or add debug logging''"



section \<open>Numbers in text\<close>

text \<open>
  \<open>Itoa\<close> is the verb \<open>%d\<close> of \<open>fmt\<close>: the decimal digits, after a minus sign for a
  negative number. \<open>padLeft w\<close> is a width \<open>w\<close> (\<open>%2d\<close>, \<open>%*d\<close>): spaces on the left.
\<close>

definition digitByte :: "nat \<Rightarrow> char" where
  "digitByte d = ''0123456789'' ! d"

fun digits :: "nat \<Rightarrow> string" where
  "digits n = (if n < 10 then [digitByte n] else digits (n div 10) @ [digitByte (n mod 10)])"

declare digits.simps [simp del]

definition Itoa :: "int \<Rightarrow> string" where
  "Itoa n = (if n < 0 then CHR ''-'' # digits (nat (- n)) else digits (nat n))"

definition padLeft :: "nat \<Rightarrow> string \<Rightarrow> string" where
  "padLeft w s = replicate (w - length s) CHR '' '' @ s"

section \<open>Configuration\<close>

record ErrorConfig =
  ShowStackTrace :: bool
  ShowSourceCode :: bool
  ShowSuggestions :: bool
  ExitOnError :: bool
  LogToFile :: string
  MaxStackDepth :: int
  ContextLines :: int
  UseColors :: bool
  EnableSmartAnalysis :: bool
  EnableStackAnalysis :: bool

definition DefaultConfig :: ErrorConfig where
  "DefaultConfig =
     \<lparr>ShowStackTrace = True, ShowSourceCode = True, ShowSuggestions = True,
      ExitOnError = True, LogToFile = [], MaxStackDepth = 10, ContextLines = 2,
      UseColors = True, EnableSmartAnalysis = True, EnableStackAnalysis = True\<rparr>"

text \<open>
  An \<open>ErrorCatcher\<close> holds one field, \<open>Config\<close>; the model passes that configuration
  where the source passes the catcher.
\<close>

definition getConfig :: "ErrorConfig \<Rightarrow> ErrorConfig" where
  "getConfig Config = (if MaxStackDepth Config = 0 then DefaultConfig else Config)"

section \<open>Context values and context maps\<close>

text \<open>
  A context value is a Go \<open>interface{}\<close>. The model keeps what catch.go can tell apart:
  the dynamic types its type switches name, and for any other type the name that
  \<open>reflect.TypeOf(v).Name()\<close> returns. A \<open>map[string]interface{}\<close> is the list of its
  entries in the order \<open>range\<close> enumerates them; a \<open>float64\<close> is its 64 bits.
\<close>

datatype gvalue =
    VNil
  | VString string
  | VInt int
  | VInt64 int
  | VFloat64 "64 word"
  | VMap "(string \<times> gvalue) list"
  | VFile
  | VOther string

type_synonym ctxmap = "string \<rightharpoonup> gvalue"

definition isPathLike :: "string \<Rightarrow> bool" where
  "isPathLike v = (Contains v ''/'' \<or> Contains v ''.'')"

fun inferContextKey :: "(string \<Rightarrow> string) \<Rightarrow> gvalue \<Rightarrow> string" where
  "inferContextKey ToLower (VString v) =
     (if isPathLike v then ''path''
      else if length v < 20 then ''name''
      else ''description'')"
| "inferContextKey ToLower VFile = ''file''"
| "inferContextKey ToLower VNil = ''context''"
| "inferContextKey ToLower (VInt n) = ToLower ''int''"
| "inferContextKey ToLower (VInt64 n) = ToLower ''int64''"
| "inferContextKey ToLower (VFloat64 w) = ToLower ''float64''"
| "inferContextKey ToLower (VMap m) = ToLower ''''"
| "inferContextKey ToLower (VOther name) = ToLower name"

text \<open>
  One round of the loop \<open>for i, item := range context\<close> of \<open>parseProvidedContext\<close>.
  The \<open>continue\<close> after a key/value pair ends this round only: the next round takes
  the item at \<open>i + 1\<close>.
\<close>

definition parseItem :: "(string \<Rightarrow> string) \<Rightarrow> gvalue list \<Rightarrow> nat \<Rightarrow> ctxmap \<Rightarrow> ctxmap" where
  "parseItem ToLower context i ctx =
     (case context ! i of
        VString v \<Rightarrow>
          (if i + 1 < length context \<and> i mod 2 = 0 then ctx(v \<mapsto> context ! (i + 1))
           else if isPathLike v then ctx(''path'' \<mapsto> VString v)
           else ctx(''operation'' \<mapsto> VString v))
      | VInt n \<Rightarrow> ctx((''value_'' @ Itoa (int i)) \<mapsto> VInt n)
      | VInt64 n \<Rightarrow> ctx((''value_'' @ Itoa (int i)) \<mapsto> VInt64 n)
      | VFloat64 w \<Rightarrow> ctx((''value_'' @ Itoa (int i)) \<mapsto> VFloat64 w)
      | v \<Rightarrow> ctx(inferContextKey ToLower v \<mapsto> v))"

fun singleMap :: "gvalue list \<Rightarrow> (string \<times> gvalue) list option" where
  "singleMap [VMap m] = Some m"
| "singleMap context = None"

definition parseProvidedContext :: "(string \<Rightarrow> string) \<Rightarrow> ctxmap \<Rightarrow> gvalue list \<Rightarrow> ctxmap" where
  "parseProvidedContext ToLower ctx context =
     (if length context = 0 then ctx
      else case singleMap context of
        Some m \<Rightarrow> fold (\<lambda>(k, v) c. c(k \<mapsto> v)) m ctx
      | None \<Rightarrow> fold (parseItem ToLower context) [0..<length context] ctx)"

text \<open>
  The loops \<open>for k, v := range sourceCtx\<close> and \<open>for k, v := range stackCtx\<close> of
  \<open>buildSmartContext\<close>, over the entries in the order \<open>range\<close> yields them.
\<close>

definition mergeAbsent :: "(string \<times> gvalue) list \<Rightarrow> ctxmap \<Rightarrow> ctxmap" where
  "mergeAbsent ents ctx = fold (\<lambda>(k, v) c. if c k = None then c(k \<mapsto> v) else c) ents ctx"

text \<open>
  \<open>detectContextFromSource\<close> runs the Go parser and \<open>detectContextFromStack\<close> reads the
  runtime's call stack; \<open>buildSmartContext\<close> takes the maps they return as \<open>sourceCtx\<close>
  (a function of file and line) and \<open>stackCtx\<close>, each as its entries in \<open>range\<close> order.
  \<open>Catch\<close> is the configuration of the global catcher.
\<close>

definition buildSmartContext ::
  "ErrorConfig \<Rightarrow> (string \<Rightarrow> string) \<Rightarrow> (string \<Rightarrow> int \<Rightarrow> (string \<times> gvalue) list)
     \<Rightarrow> (string \<times> gvalue) list \<Rightarrow> string \<Rightarrow> int \<Rightarrow> gvalue list \<Rightarrow> ctxmap" where
  "buildSmartContext Catch ToLower sourceCtx stackCtx file line context =
     (let ctx = parseProvidedContext ToLower Map.empty context;
          ctx = (if EnableSmartAnalysis (getConfig Catch)
                 then mergeAbsent (sourceCtx file line) ctx else ctx);
          ctx = (if EnableStackAnalysis (getConfig Catch)
                 then mergeAbsent stackCtx ctx else ctx)
      in ctx)"


section \<open>Machine integers\<close>

text \<open>
  A Go \<open>int\<close> is 64 bits wide here and its arithmetic wraps around. The model computes
  on \<open>int\<close> and applies \<open>wrap64\<close> to the result of every addition and subtraction
  of the source; \<open>isInt64\<close> tells the values a Go \<open>int\<close> can hold.
\<close>

definition wrap64 :: "int \<Rightarrow> int" where
  "wrap64 x = (x + 2 ^ 63) mod 2 ^ 64 - 2 ^ 63"

definition isInt64 :: "int \<Rightarrow> bool" where
  "isInt64 x = (- (2 ^ 63) \<le> x \<and> x < 2 ^ 63)"

section \<open>Source window: loadSourceContext\<close>

record SourceLine =
  Number :: int
  Content :: string
  IsError :: bool

text \<open>
  The loop \<open>for scanner.Scan()\<close>. Its last argument holds the lines the scanner has
  yet to yield; \<open>lines\<close> is the slice built so far.
\<close>

fun scanLoop :: "int \<Rightarrow> int \<Rightarrow> int \<Rightarrow> int \<Rightarrow> SourceLine list \<Rightarrow> string list \<Rightarrow> SourceLine list" where
  "scanLoop startLine endLine errorLine currentLine lines [] = lines"
| "scanLoop startLine endLine errorLine currentLine lines (text # rest) =
     (let currentLine = wrap64 (currentLine + 1);
          lines = (if currentLine \<ge> startLine \<and> currentLine \<le> endLine
                   then lines @ [\<lparr>Number = currentLine, Content = text,
                                   IsError = (currentLine = errorLine)\<rparr>]
                   else lines)
      in if currentLine > endLine then lines
         else scanLoop startLine endLine errorLine currentLine lines rest)"

text \<open>
  The lines of a file as \<open>bufio.Scanner\<close> yields them with its default split
  function \<open>ScanLines\<close> and its default buffer. \<open>splitAtLF\<close> cuts the bytes at every
  line feed; \<open>rawLines\<close> are the stretches between the line feeds, the last one left out
  when it is empty (the file is empty or ends with a line feed) and a line of its own
  otherwise. \<open>ScanLines\<close> drops one carriage return from the end of a line
  (\<open>dropCR\<close>). The buffer grows to \<open>MaxScanTokenSize\<close> bytes and not further:
  at the first line with that many bytes or more before its line feed, \<open>Scan\<close>
  returns false and the loop ends; the source does not look at the scanner's error.
\<close>

fun splitAtLF :: "string \<Rightarrow> string list" where
  "splitAtLF [] = [[]]"
| "splitAtLF (c # cs) =
     (if c = CHR 0x0A then [] # splitAtLF cs
      else (c # hd (splitAtLF cs)) # tl (splitAtLF cs))"

definition rawLines :: "string \<Rightarrow> string list" where
  "rawLines bytes =
     (let segments = splitAtLF bytes
      in if last segments = [] then butlast segments else segments)"

definition dropCR :: "string \<Rightarrow> string" where
  "dropCR raw = (if raw \<noteq> [] \<and> last raw = CHR 0x0D then butlast raw else raw)"

definition MaxScanTokenSize :: nat where
  "MaxScanTokenSize = 64 * 1024"

definition fileLines :: "string \<Rightarrow> string list" where
  "fileLines bytes = map dropCR (rawLines bytes)"

definition scannerLines :: "string \<Rightarrow> string list" where
  "scannerLines bytes =
     map dropCR (takeWhile (\<lambda>raw. length raw < MaxScanTokenSize) (rawLines bytes))"

text \<open>
  \<open>openFile filename\<close> is \<open>None\<close> when \<open>os.Open\<close> fails, and otherwise the bytes that
  reading the opened file delivers.
\<close>

definition loadSourceContext ::
  "(string \<Rightarrow> string option) \<Rightarrow> string \<Rightarrow> int \<Rightarrow> int \<Rightarrow> SourceLine list" where
  "loadSourceContext openFile filename errorLine contextLines =
     (case openFile filename of
        None \<Rightarrow> []
      | Some bytes \<Rightarrow>
          (let startLine = wrap64 (errorLine - contextLines);
               endLine = wrap64 (errorLine + contextLines);
               startLine = (if startLine < 1 then 1 else startLine)
           in scanLoop startLine endLine errorLine 0 [] (scannerLines bytes)))"

text \<open>
  The window as the specification words it: the lines numbered from \<open>lo\<close> to \<open>hi\<close>,
  in order, numbered from 1, the line numbered \<open>center\<close> flagged.
\<close>

definition numbered :: "nat \<Rightarrow> string list \<Rightarrow> (nat \<times> string) list" where
  "numbered n scanned = enumerate n scanned"

definition window :: "string list \<Rightarrow> int \<Rightarrow> int \<Rightarrow> int \<Rightarrow> SourceLine list" where
  "window scanned lo hi center =
     map (\<lambda>(n, text). \<lparr>Number = int n, Content = text, IsError = (int n = center)\<rparr>)
       (filter (\<lambda>(n, text). lo \<le> int n \<and> int n \<le> hi) (numbered 1 scanned))"


section \<open>Stack capture: buildStackTrace\<close>

text \<open>
  The fields \<open>File\<close>, \<open>Line\<close> and \<open>Function\<close> of a \<open>StackFrame\<close>; the prefix
  keeps them apart from the fields of \<open>ErrorInfo\<close> with the same names.
\<close>

record StackFrame =
  FrameFile :: string
  FrameLine :: int
  FrameFunction :: string

text \<open>
  What the runtime tells about one caller: \<open>runtime.Caller(i)\<close> gives the file and the
  line (and a program counter), \<open>runtime.FuncForPC(pc)\<close> gives the function, whose name
  is \<open>pcFunc\<close>, or gives nil, which is \<open>None\<close>. A function that calls
  \<open>runtime.Caller\<close> takes it as the parameter \<open>Caller\<close>, which is \<open>None\<close> at an
  index where \<open>runtime.Caller\<close> reports \<open>ok = false\<close>.
\<close>

record RuntimeFrame =
  pcFunc :: "string option"
  pcFile :: string
  pcLine :: int

text \<open>\<open>strings.LastIndex(s, "/")\<close>: the index of the last slash, or \<open>-1\<close>.\<close>

definition LastIndexSlash :: "string \<Rightarrow> int" where
  "LastIndexSlash s =
     (if CHR ''/'' \<in> set s
      then int (length s) - 1 - int (length (takeWhile (\<lambda>c. c \<noteq> CHR ''/'') (rev s)))
      else - 1)"

text \<open>
  The name kept for a frame: empty when \<open>FuncForPC\<close> gives nil, and otherwise
  \<open>fn.Name()\<close> cut after its last slash.
\<close>

definition frameFuncName :: "string option \<Rightarrow> string" where
  "frameFuncName fn =
     (case fn of
        None \<Rightarrow> []
      | Some funcName \<Rightarrow>
          (let lastSlash = LastIndexSlash funcName
           in if lastSlash \<ge> 0 then drop (nat (lastSlash + 1)) funcName else funcName))"

text \<open>
  The loop \<open>for i := skip + 1; i < skip+config.MaxStackDepth; i++\<close>, with \<open>bound\<close>
  for \<open>skip+config.MaxStackDepth\<close>. Since \<open>i < bound\<close> holds in the body, \<open>i++\<close>
  does not wrap.
\<close>

function stackLoop ::
  "(int \<Rightarrow> RuntimeFrame option) \<Rightarrow> int \<Rightarrow> int \<Rightarrow> StackFrame list \<Rightarrow> StackFrame list" where
  "stackLoop Caller i bound stack =
     (if i < bound then
        (case Caller i of
           None \<Rightarrow> stack
         | Some fr \<Rightarrow>
             stackLoop Caller (i + 1) bound
               (stack @ [\<lparr>FrameFile = pcFile fr, FrameLine = pcLine fr,
                           FrameFunction = frameFuncName (pcFunc fr)\<rparr>]))
      else stack)"
  by pat_completeness auto
termination
  by (relation "measure (\<lambda>(Caller, i, bound, stack). nat (bound - i))") auto

declare stackLoop.simps [simp del]

definition buildStackTrace ::
  "ErrorConfig \<Rightarrow> (int \<Rightarrow> RuntimeFrame option) \<Rightarrow> int \<Rightarrow> StackFrame list" where
  "buildStackTrace Config Caller skip =
     (let config = getConfig Config
      in stackLoop Caller (wrap64 (skip + 1)) (wrap64 (skip + MaxStackDepth config)) [])"

section \<open>Rendering: handleError\<close>

subsection \<open>ANSI color codes\<close>

definition ESC :: char where
  "ESC = CHR 0x1B"

definition Reset :: string where "Reset = ESC # ''[0m''"
definition Bold :: string where "Bold = ESC # ''[1m''"
definition Red :: string where "Red = ESC # ''[31m''"
definition Green :: string where "Green = ESC # ''[32m''"
definition Yellow :: string where "Yellow = ESC # ''[33m''"
definition Blue :: string where "Blue = ESC # ''[34m''"
definition Magenta :: string where "Magenta = ESC # ''[35m''"
definition Cyan :: string where "Cyan = ESC # ''[36m''"
definition White :: string where "White = ESC # ''[37m''"
definition BrightRed :: string where "BrightRed = ESC # ''[91m''"
definition Gray :: string where "Gray = ESC # ''[90m''"

definition newline :: string where
  "newline = [CHR 0x0A]"

subsection \<open>The failure record\<close>

text \<open>
  A non-nil \<open>error\<close> value, with the text its method \<open>Error()\<close> returns; a nil
  \<open>error\<close> is \<open>None\<close> of \<open>goerror option\<close>.
\<close>

datatype goerror = GoError (ErrorText: string)

record ErrorInfo =
  Error :: goerror
  File :: string
  Line :: int
  Column :: int
  Function :: string
  Context :: ctxmap
  Stack :: "StackFrame list"
  SourceLines :: "SourceLine list"
  ErrorCode :: string
  Suggestion :: string

text \<open>
  \<open>filepath.Base\<close> on a system whose path separator is the slash: trailing slashes
  are dropped, then everything up to the last slash; the empty path gives a dot, a
  path of slashes only gives a slash.
\<close>

definition Base :: "string \<Rightarrow> string" where
  "Base path =
     (if path = [] then ''.''
      else let path = rev (dropWhile (\<lambda>c. c = CHR ''/'') (rev path));
               path = rev (takeWhile (\<lambda>c. c \<noteq> CHR ''/'') (rev path))
           in if path = [] then ''/'' else path)"

subsection \<open>The report, block by block\<close>

text \<open>
  Each definition is one stretch of \<open>handleError\<close> that writes to \<open>output\<close>;
  \<open>colors\<close> is \<open>config.UseColors\<close>, and every \<open>if config.UseColors\<close> of the source is
  an \<open>if colors\<close> here, with the two \<open>fmt.Sprintf\<close> calls as its branches.
\<close>

definition headerLine :: "bool \<Rightarrow> ErrorInfo \<Rightarrow> string" where
  "headerLine colors info =
     (if colors
      then BrightRed @ ''error['' @ Bold @ ErrorCode info @ Reset @ BrightRed @ '']: ''
             @ Bold @ ErrorText (Error info) @ Reset @ newline
      else ''error['' @ ErrorCode info @ '']: '' @ ErrorText (Error info) @ newline)"

definition locationLine :: "bool \<Rightarrow> ErrorInfo \<Rightarrow> string" where
  "locationLine colors info =
     (let filename = Base (File info) in
      if colors
      then '' '' @ Blue @ Bold @ ''-->'' @ Reset @ '' '' @ filename @ '':''
             @ Itoa (Line info) @ newline
      else '' --> '' @ filename @ '':'' @ Itoa (Line info) @ newline)"

definition sourceLineText :: "bool \<Rightarrow> nat \<Rightarrow> SourceLine \<Rightarrow> string" where
  "sourceLineText colors padding sourceLine =
     (let lineNumStr = padLeft padding (Itoa (Number sourceLine)) in
      if IsError sourceLine then
        (if colors
         then Red @ Bold @ lineNumStr @ Reset @ '' |'' @ Reset @ '' ''
                @ Content sourceLine @ newline
         else lineNumStr @ '' | '' @ Content sourceLine @ newline)
        @ (let spaces = replicate padding CHR '' '' in
           if colors
           then spaces @ '' |'' @ Reset @ '' '' @ Red @ Bold @ Reset @ ''^'' @ newline
           else spaces @ '' | ^'' @ newline)
      else
        (if colors
         then Blue @ lineNumStr @ Reset @ '' |'' @ Reset @ '' '' @ Gray
                @ Content sourceLine @ Reset @ newline
         else lineNumStr @ '' | '' @ Content sourceLine @ newline))"

definition sourceBlock :: "ErrorConfig \<Rightarrow> ErrorInfo \<Rightarrow> string" where
  "sourceBlock config info =
     (if ShowSourceCode config \<and> length (SourceLines info) > 0 then
        (let maxLineNum = Number (last (SourceLines info));
             padding = length (Itoa maxLineNum)
         in ''  |'' @ newline
            @ concat (map (sourceLineText (UseColors config) padding) (SourceLines info))
            @ ''  |'' @ newline)
      else [])"

text \<open>
  The context block. \<open>info.Context\<close> is a Go map, and \<open>for k, v := range info.Context\<close>
  visits its entries in an order the Go runtime chooses anew at every loop. \<open>entries\<close>
  is that order: any list that \<open>rangeOf\<close> relates to the map. \<open>fmtV\<close> is the verb
  \<open>%v\<close> of \<open>fmt\<close>.
\<close>

definition rangeOf :: "ctxmap \<Rightarrow> (string \<times> gvalue) list \<Rightarrow> bool" where
  "rangeOf m entries = (distinct (map fst entries) \<and> map_of entries = m)"

definition contextLine :: "bool \<Rightarrow> (gvalue \<Rightarrow> string) \<Rightarrow> string \<times> gvalue \<Rightarrow> string" where
  "contextLine colors fmtV kv =
     (case kv of (k, v) \<Rightarrow>
        if colors then ''    '' @ Cyan @ k @ Reset @ '': '' @ fmtV v @ newline
        else ''    '' @ k @ '': '' @ fmtV v @ newline)"

definition contextBlock :: "bool \<Rightarrow> (gvalue \<Rightarrow> string) \<Rightarrow> (string \<times> gvalue) list \<Rightarrow> string" where
  "contextBlock colors fmtV entries =
     (if length entries > 0 then
        (if colors
         then ''  '' @ Blue @ Bold @ ''='' @ Reset @ '' '' @ Yellow @ Bold @ ''context:''
                @ Reset @ newline
         else ''  = context:'' @ newline)
        @ concat (map (contextLine colors fmtV) entries)
        @ newline
      else [])"

definition suggestionBlock :: "ErrorConfig \<Rightarrow> ErrorInfo \<Rightarrow> string" where
  "suggestionBlock config info =
     (if ShowSuggestions config \<and> Suggestion info \<noteq> [] then
        (if UseColors config
         then ''  '' @ Blue @ Bold @ ''='' @ Reset @ '' '' @ Green @ Bold @ ''help:''
                @ Reset @ '' '' @ Suggestion info @ newline
         else ''  = help: '' @ Suggestion info @ newline)
        @ newline
      else [])"

definition frameText :: "bool \<Rightarrow> nat \<times> StackFrame \<Rightarrow> string" where
  "frameText colors iframe =
     (case iframe of (i, frame) \<Rightarrow>
        let frameFile = Base (FrameFile frame) in
        if colors
        then ''   '' @ Gray @ padLeft 2 (Itoa (int i)) @ '':'' @ Reset @ '' '' @ Bold
               @ FrameFunction frame @ Reset @ newline
               @ ''          at '' @ Gray @ frameFile @ '':'' @ Itoa (FrameLine frame)
               @ Reset @ newline
        else ''   '' @ padLeft 2 (Itoa (int i)) @ '': '' @ FrameFunction frame @ newline
               @ ''          at '' @ frameFile @ '':'' @ Itoa (FrameLine frame) @ newline)"

definition stackBlock :: "ErrorConfig \<Rightarrow> ErrorInfo \<Rightarrow> string" where
  "stackBlock config info =
     (if ShowStackTrace config \<and> length (Stack info) > 0 then
        (if UseColors config
         then ''  '' @ Blue @ Bold @ ''='' @ Reset @ '' '' @ Yellow @ Bold
                @ ''stack backtrace:'' @ Reset @ newline
         else ''  = stack backtrace:'' @ newline)
        @ concat (map (frameText (UseColors config)) (enumerate 0 (Stack info)))
        @ newline
      else [])"

text \<open>\<open>message := output.String()\<close>: the blocks in the order the source writes them.\<close>

definition renderReport ::
  "ErrorConfig \<Rightarrow> (gvalue \<Rightarrow> string) \<Rightarrow> ErrorInfo \<Rightarrow> (string \<times> gvalue) list \<Rightarrow> string" where
  "renderReport config fmtV info entries =
     headerLine (UseColors config) info
     @ locationLine (UseColors config) info
     @ sourceBlock config info
     @ contextBlock (UseColors config) fmtV entries
     @ suggestionBlock config info
     @ stackBlock config info"

subsection \<open>Stripping the colors: stripANSI\<close>

text \<open>
  \<open>strings.ReplaceAll(s, old, "")\<close>: the occurrences of \<open>old\<close> are found from left to
  right, each search starting after the occurrence found before it, and are cut out.
  With an empty \<open>old\<close> and an empty replacement the string is unchanged.
\<close>

function ReplaceAllWithEmpty :: "string \<Rightarrow> string \<Rightarrow> string" where
  "ReplaceAllWithEmpty [] old = []"
| "ReplaceAllWithEmpty (c # cs) old =
     (if old = [] then c # cs
      else if HasPrefix (c # cs) old
        then ReplaceAllWithEmpty (drop (length old) (c # cs)) old
      else c # ReplaceAllWithEmpty cs old)"
  by pat_completeness auto
termination
  by (relation "measure (\<lambda>(s, old). length s)") auto

definition escapes :: "string list" where
  "escapes = [Reset, Bold, Red, Green, Yellow, Blue, Magenta, Cyan, White, BrightRed, Gray]"

definition stripANSI :: "string \<Rightarrow> string" where
  "stripANSI text = fold (\<lambda>escape result. ReplaceAllWithEmpty result escape) escapes text"

subsection \<open>Console, log file and exit\<close>

text \<open>
  The world outside the process: what has been written to the error console, the
  contents of the files, and the paths \<open>os.OpenFile\<close> can open for appending (creating
  the file when it is missing).
\<close>

record World =
  stderr :: string
  files :: "string \<rightharpoonup> string"
  appendable :: "string \<Rightarrow> bool"

text \<open>
  A call either returns, with a value and a world, or ends the process through
  \<open>os.Exit\<close>, with the exit status and the world it leaves.
\<close>

datatype 'a outcome = Returns 'a World | Exits int World

definition logToFile :: "World \<Rightarrow> string \<Rightarrow> string \<Rightarrow> World" where
  "logToFile w filename message =
     (let cleanMessage = stripANSI message in
      if appendable w filename
      then w\<lparr>files := (files w)(filename \<mapsto>
                (case files w filename of None \<Rightarrow> [] | Some old \<Rightarrow> old) @ cleanMessage)\<rparr>
      else w)"

text \<open>
  \<open>handleError\<close> of a catcher whose configuration is \<open>Config\<close>. \<open>rangeOrder\<close> gives the
  order in which \<open>range info.Context\<close> visits the map this time.
\<close>

definition handleError ::
  "ErrorConfig \<Rightarrow> (gvalue \<Rightarrow> string) \<Rightarrow> (ctxmap \<Rightarrow> (string \<times> gvalue) list) \<Rightarrow> ErrorInfo
     \<Rightarrow> World \<Rightarrow> unit outcome" where
  "handleError Config fmtV rangeOrder info w =
     (let config = getConfig Config;
          message = renderReport config fmtV info (rangeOrder (Context info));
          w = w\<lparr>stderr := stderr w @ message\<rparr>;
          w = (if LogToFile config \<noteq> [] then logToFile w (LogToFile config) message else w)
      in if ExitOnError config then Exits 1 w else Returns () w)"


subsection \<open>Colored text over plain text\<close>

text \<open>
  \<open>escFree s\<close>: the byte ESC, with which every color code starts, does not occur in
  \<open>s\<close>. \<open>plainRecord\<close> says so of every text of a failure record that \<open>handleError\<close>
  writes into the report.
\<close>

definition escFree :: "string \<Rightarrow> bool" where
  "escFree s = (ESC \<notin> set s)"

definition plainRecord :: "(gvalue \<Rightarrow> string) \<Rightarrow> ErrorInfo \<Rightarrow> (string \<times> gvalue) list \<Rightarrow> bool" where
  "plainRecord fmtV info entries =
     (escFree (ErrorCode info) \<and> escFree (ErrorText (Error info)) \<and> escFree (File info)
      \<and> escFree (Suggestion info)
      \<and> list_all (\<lambda>sourceLine. escFree (Content sourceLine)) (SourceLines info)
      \<and> list_all (\<lambda>(k, v). escFree k \<and> escFree (fmtV v)) entries
      \<and> list_all (\<lambda>frame. escFree (FrameFile frame) \<and> escFree (FrameFunction frame))
           (Stack info))"

text \<open>
  \<open>styled E c p\<close>: the text \<open>c\<close> is the text \<open>p\<close> with color codes of the set \<open>E\<close>
  put in between stretches that are free of ESC.
\<close>

inductive styled :: "string set \<Rightarrow> string \<Rightarrow> string \<Rightarrow> bool" for E :: "string set" where
  styled_Nil: "styled E [] []"
| styled_code: "t \<in> E \<Longrightarrow> styled E c p \<Longrightarrow> styled E (t @ c) p"
| styled_text: "escFree x \<Longrightarrow> styled E c p \<Longrightarrow> styled E (x @ c) (x @ p)"

text \<open>\<open>noStyling s\<close>: none of the color codes occurs in \<open>s\<close>.\<close>

definition noStyling :: "string \<Rightarrow> bool" where
  "noStyling s = list_all (\<lambda>escape. \<not> Contains s escape) escapes"

fun worldOf :: "'a outcome \<Rightarrow> World" where
  "worldOf (Returns x w) = w"
| "worldOf (Exits status w) = w"

subsection \<open>Sample values\<close>

text \<open>
  A failure record, a formatter for the values it holds, a configuration that writes
  to a log file and a world to start from; the examples below evaluate the code on them.
\<close>

definition sampleFmtV :: "gvalue \<Rightarrow> string" where
  "sampleFmtV v = (case v of VString s \<Rightarrow> s | VInt n \<Rightarrow> Itoa n | VInt64 n \<Rightarrow> Itoa n | _ \<Rightarrow> ''?'')"

definition sampleInfo :: ErrorInfo where
  "sampleInfo =
     \<lparr>Error = GoError ''open cfg: no such file'', File = ''/srv/app/main.go'', Line = 10,
      Column = 0, Function = ''main.run'',
      Context = [''user_id'' \<mapsto> VInt 42, ''path'' \<mapsto> VString ''cfg''],
      Stack = [\<lparr>FrameFile = ''/srv/app/main.go'', FrameLine = 10, FrameFunction = ''main.run''\<rparr>],
      SourceLines = [\<lparr>Number = 9, Content = ''f, err := os.Open(p)'', IsError = False\<rparr>,
                     \<lparr>Number = 10, Content = ''catch.Err(err)'', IsError = True\<rparr>],
      ErrorCode = ''FS001'', Suggestion = ''verify the file path''\<rparr>"

definition sampleConfig :: ErrorConfig where
  "sampleConfig = DefaultConfig\<lparr>ExitOnError := False, LogToFile := ''err.log''\<rparr>"

definition sampleWorld :: World where
  "sampleWorld = \<lparr>stderr = [], files = Map.empty, appendable = (\<lambda>path. True)\<rparr>"


section \<open>Building the failure record and the entry points\<close>

text \<open>
  What a call into the package finds outside itself: \<open>strings.ToLower\<close>, the verb
  \<open>%v\<close>, the file system as \<open>loadSourceContext\<close> reads it, the maps that
  \<open>detectContextFromSource\<close> and \<open>detectContextFromStack\<close> return, the order in
  which \<open>range\<close> visits a context map, the frame the runtime reports for each function
  of the package while it is calling on, and the frames of the callers of the entry
  point, the nearest first.
\<close>

record Env =
  envToLower :: "string \<Rightarrow> string"
  envFmtV :: "gvalue \<Rightarrow> string"
  envOpen :: "string \<Rightarrow> string option"
  envSourceCtx :: "string \<Rightarrow> int \<Rightarrow> (string \<times> gvalue) list"
  envStackCtx :: "(string \<times> gvalue) list"
  envRange :: "ctxmap \<Rightarrow> (string \<times> gvalue) list"
  envFrame :: "string \<Rightarrow> RuntimeFrame"
  envCallers :: "RuntimeFrame list"

text \<open>
  \<open>runtime.Caller(i)\<close> in a function whose own frame is \<open>self\<close> and whose callers
  are \<open>callers\<close>: index 0 is the function itself, index 1 its caller, and so on; past
  the end of the stack there is no frame.
\<close>

definition runtimeCaller :: "RuntimeFrame \<Rightarrow> RuntimeFrame list \<Rightarrow> int \<Rightarrow> RuntimeFrame option" where
  "runtimeCaller self callers i =
     (if i = 0 then Some self
      else if 0 < i \<and> nat i \<le> length callers then Some (callers ! (nat i - 1))
      else None)"

text \<open>
  The head of \<open>buildErrorInfo\<close> and of \<open>buildSmartErrorInfo\<close>: the caller's file,
  line and function name, or \<open>"unknown"\<close>, 0 and the empty name when there is no
  such caller.
\<close>

definition callSite :: "RuntimeFrame option \<Rightarrow> string \<times> int \<times> string" where
  "callSite c =
     (case c of
        None \<Rightarrow> (''unknown'', 0, [])
      | Some fr \<Rightarrow> (pcFile fr, pcLine fr, frameFuncName (pcFunc fr)))"

definition buildErrorInfo ::
  "Env \<Rightarrow> ErrorConfig \<Rightarrow> RuntimeFrame list \<Rightarrow> goerror \<Rightarrow> int \<Rightarrow> ErrorInfo" where
  "buildErrorInfo env Config callers err skip =
     (let config = getConfig Config;
          (file, line, funcName) =
             callSite (runtimeCaller (envFrame env ''buildErrorInfo'') callers (wrap64 (skip + 1)));
          info = \<lparr>Error = err, File = file, Line = line, Column = 0, Function = funcName,
                  Context = Map.empty, Stack = [], SourceLines = [],
                  ErrorCode = generateSmartErrorCode (envToLower env) (ErrorText err),
                  Suggestion = generateSmartSuggestion (envToLower env) (ErrorText err)\<rparr>;
          info = (if ShowSourceCode config
                  then info\<lparr>SourceLines :=
                         loadSourceContext (envOpen env) file line (ContextLines config)\<rparr>
                  else info);
          info = (if ShowStackTrace config
                  then info\<lparr>Stack :=
                         buildStackTrace Config
                           (runtimeCaller (envFrame env ''buildStackTrace'')
                              (envFrame env ''buildErrorInfo'' # callers))
                           (wrap64 (skip + 1))\<rparr>
                  else info)
      in info)"

definition buildSmartErrorInfo ::
  "Env \<Rightarrow> ErrorConfig \<Rightarrow> RuntimeFrame list \<Rightarrow> goerror \<Rightarrow> gvalue list \<Rightarrow> ErrorInfo" where
  "buildSmartErrorInfo env Catch callers err context =
     (let config = getConfig Catch;
          (file, line, funcName) =
             callSite (runtimeCaller (envFrame env ''buildSmartErrorInfo'') callers 2);
          info = \<lparr>Error = err, File = file, Line = line, Column = 0, Function = funcName,
                  Context = Map.empty, Stack = [], SourceLines = [],
                  ErrorCode = generateSmartErrorCode (envToLower env) (ErrorText err),
                  Suggestion = generateSmartSuggestion (envToLower env) (ErrorText err)\<rparr>;
          info = info\<lparr>Context :=
                   buildSmartContext Catch (envToLower env) (envSourceCtx env)
                     (envStackCtx env) file line context\<rparr>;
          info = (if ShowSourceCode config
                  then info\<lparr>SourceLines :=
                         loadSourceContext (envOpen env) file line (ContextLines config)\<rparr>
                  else info);
          info = (if ShowStackTrace config
                  then info\<lparr>Stack :=
                         buildStackTrace Catch
                           (runtimeCaller (envFrame env ''buildStackTrace'')
                              (envFrame env ''buildSmartErrorInfo'' # callers))
                           1\<rparr>
                  else info)
      in info)"

text \<open>
  \<open>returning v\<close> is the statement \<open>return v\<close> after a call: the value is returned if
  the call came back, and nothing runs after an exit. \<open>returnedValue\<close> is the value a
  call returns, \<open>None\<close> when it ends the process instead.
\<close>

fun returning :: "'b \<Rightarrow> 'a outcome \<Rightarrow> 'b outcome" where
  "returning v (Returns x w) = Returns v w"
| "returning v (Exits status w) = Exits status w"

fun returnedValue :: "'a outcome \<Rightarrow> 'a option" where
  "returnedValue (Returns x w) = Some x"
| "returnedValue (Exits status w) = None"

text \<open>
  \<open>Err\<close>, with \<open>Catch\<close> the configuration of the global catcher; \<open>err\<close> is \<open>None\<close>
  for a nil error.
\<close>

definition Err :: "Env \<Rightarrow> ErrorConfig \<Rightarrow> goerror option \<Rightarrow> gvalue list \<Rightarrow> World
    \<Rightarrow> goerror option outcome" where
  "Err env Catch err context w =
     (case err of
        None \<Rightarrow> Returns None w
      | Some e \<Rightarrow>
          (let info = buildSmartErrorInfo env Catch (envFrame env ''Err'' # envCallers env)
                        e context
           in returning err (handleError Catch (envFmtV env) (envRange env) info w)))"

text \<open>\<open>ErrorCatcher.Set\<close> of a catcher whose configuration is \<open>Config\<close>.\<close>

definition ErrorCatcher_Set :: "Env \<Rightarrow> ErrorConfig \<Rightarrow> goerror option \<Rightarrow> World
    \<Rightarrow> goerror option outcome" where
  "ErrorCatcher_Set env Config err w =
     (case err of
        None \<Rightarrow> Returns None w
      | Some e \<Rightarrow>
          (let info = buildErrorInfo env Config
                        (envFrame env ''ErrorCatcher.Set'' # envCallers env) e 1
           in returning err (handleError Config (envFmtV env) (envRange env) info w)))"

text \<open>
  The chained builder: \<open>ErrorCatcher.WithContext\<close> starts a chain,
  \<open>ContextualCatcher.WithContext\<close> adds to it, \<open>ContextualCatcher.Set\<close> ends it.
  The field \<open>contextMap\<close> is the field \<open>context\<close> of the source.
\<close>

record ContextualCatcher =
  catcher :: ErrorConfig
  contextMap :: ctxmap

definition ErrorCatcher_WithContext :: "ErrorConfig \<Rightarrow> string \<Rightarrow> gvalue \<Rightarrow> ContextualCatcher" where
  "ErrorCatcher_WithContext Config key val = \<lparr>catcher = Config, contextMap = [key \<mapsto> val]\<rparr>"

definition ContextualCatcher_WithContext ::
  "ContextualCatcher \<Rightarrow> string \<Rightarrow> gvalue \<Rightarrow> ContextualCatcher" where
  "ContextualCatcher_WithContext c key val = c\<lparr>contextMap := (contextMap c)(key \<mapsto> val)\<rparr>"

definition ContextualCatcher_Set :: "Env \<Rightarrow> ContextualCatcher \<Rightarrow> goerror option \<Rightarrow> World
    \<Rightarrow> goerror option outcome" where
  "ContextualCatcher_Set env c err w =
     (case err of
        None \<Rightarrow> Returns None w
      | Some e \<Rightarrow>
          (let info = buildErrorInfo env (catcher c)
                        (envFrame env ''ContextualCatcher.Set'' # envCallers env) e 1;
               info = info\<lparr>Context := contextMap c\<rparr>
           in returning err (handleError (catcher c) (envFmtV env) (envRange env) info w)))"

text \<open>A chain of further \<open>WithContext\<close> calls, one for each pair of \<open>pairs\<close>.\<close>

definition chain :: "ContextualCatcher \<Rightarrow> (string \<times> gvalue) list \<Rightarrow> ContextualCatcher" where
  "chain c pairs = fold (\<lambda>(key, val) c. ContextualCatcher_WithContext c key val) pairs c"

text \<open>
  An environment for the examples: no source file opens, source inference finds nothing,
  stack inference finds the calling function, and \<open>envRange\<close> visits that one entry.
\<close>

definition sampleEnv :: Env where
  "sampleEnv =
     \<lparr>envToLower = ToLowerASCII, envFmtV = sampleFmtV,
      envOpen = (\<lambda>path. None),
      envSourceCtx = (\<lambda>file line. []),
      envStackCtx = [(''caller_function'', VString ''main.run'')],
      envRange = (\<lambda>m. filter (\<lambda>(k, v). m k = Some v)
                    [(''caller_function'', VString ''main.run'')]),
      envFrame = (\<lambda>name. \<lparr>pcFunc = Some (''catch.'' @ name), pcFile = ''/go/catch/catch.go'',
                            pcLine = 1\<rparr>),
      envCallers = [\<lparr>pcFunc = Some ''main.run'', pcFile = ''/srv/app/main.go'', pcLine = 10\<rparr>,
                    \<lparr>pcFunc = Some ''main.main'', pcFile = ''/srv/app/main.go'', pcLine = 3\<rparr>]\<rparr>"


section \<open>Properties of the classifier\<close>

lemma HasPrefix_prefix: "HasPrefix s p = prefix p s"
  by (induction s p rule: HasPrefix.induct) auto

lemma Contains_sublist: "Contains s p = sublist p s"
  by (induction s) (auto simp: HasPrefix_prefix sublist_Cons_right)


lemmas table_defs = code_table_def fs_table_def net_table_def data_table_def logic_table_def

text \<open>
  C1 (as amended). The code returned is the code of the first pattern of \<open>code_table\<close>
  that occurs in the lower-cased message, and \<open>GEN000\<close> exactly when no pattern occurs.
  A message with both "connection refused" and "timeout" gets \<open>NET001\<close> when no
  filesystem pattern occurs in it, and it never gets \<open>NET002\<close>.
\<close>

theorem classifier_first_match_priority:
  "generateSmartErrorCode L m = first_match code_table ''GEN000'' (L m)
   \<and> (generateSmartErrorCode L m = ''GEN000'') = matches_none code_table (L m)
   \<and> (Contains (L m) ''connection refused'' \<and> Contains (L m) ''timeout''
        \<and> matches_none fs_table (L m) \<longrightarrow> generateSmartErrorCode L m = ''NET001'')
   \<and> (Contains (L m) ''connection refused'' \<and> Contains (L m) ''timeout''
        \<longrightarrow> generateSmartErrorCode L m \<noteq> ''NET002'')"
  by (simp add: generateSmartErrorCode_def first_match_def matches_none_def table_defs Let_def)

theorem classifier_first_match_priority_witness:
  "Contains (ToLowerASCII ''dial tcp: Connection refused (Timeout)'') ''connection refused''
   \<and> Contains (ToLowerASCII ''dial tcp: Connection refused (Timeout)'') ''timeout''
   \<and> matches_none fs_table (ToLowerASCII ''dial tcp: Connection refused (Timeout)'')
   \<and> generateSmartErrorCode ToLowerASCII ''dial tcp: Connection refused (Timeout)'' = ''NET001''
   \<and> generateSmartErrorCode ToLowerASCII ''dial tcp: Connection refused (Timeout)'' \<noteq> ''NET002''"
proof -
  let ?m = "''dial tcp: Connection refused (Timeout)''"
  have low: "ToLowerASCII ?m = ''dial tcp: connection refused (timeout)''"
    by (simp add: ToLowerASCII_def lowerByte_def)
  have h: "Contains (ToLowerASCII ?m) ''connection refused''
      \<and> Contains (ToLowerASCII ?m) ''timeout'' \<and> matches_none fs_table (ToLowerASCII ?m)"
    unfolding low by (simp add: matches_none_def fs_table_def)
  note t = classifier_first_match_priority [of ToLowerASCII ?m]
  have a: "generateSmartErrorCode ToLowerASCII ?m = ''NET001''"
    using t [THEN conjunct2, THEN conjunct2, THEN conjunct1] h by (rule mp)
  have "Contains (ToLowerASCII ?m) ''connection refused'' \<and> Contains (ToLowerASCII ?m) ''timeout''"
    using h [THEN conjunct1] h [THEN conjunct2, THEN conjunct1] by (rule conjI)
  with t [THEN conjunct2, THEN conjunct2, THEN conjunct2]
  have b: "generateSmartErrorCode ToLowerASCII ?m \<noteq> ''NET002''"
    by (rule mp)
  show ?thesis
    using h a b by (simp only: simp_thms)
qed

text \<open>
  C1 as stated fails: a message that holds "connection refused" and "timeout" and also a
  filesystem pattern is given the filesystem code, since the filesystem cases come first.
\<close>

theorem classifier_refused_timeout_counterexample:
  "Contains (ToLowerASCII ''open cfg: No such file (connection refused, timeout)'')
     ''connection refused''
   \<and> Contains (ToLowerASCII ''open cfg: No such file (connection refused, timeout)'')
     ''timeout''
   \<and> generateSmartErrorCode ToLowerASCII
        ''open cfg: No such file (connection refused, timeout)'' = ''FS001''
   \<and> generateSmartErrorCode ToLowerASCII
        ''open cfg: No such file (connection refused, timeout)'' \<noteq> ''NET001''"
proof -
  have low: "ToLowerASCII ''open cfg: No such file (connection refused, timeout)''
      = ''open cfg: no such file (connection refused, timeout)''"
    by (simp add: ToLowerASCII_def lowerByte_def)
  show ?thesis
    unfolding generateSmartErrorCode_def Let_def low by simp
qed

text \<open>
  C6 (as amended). The suggestion is the first match of a table of its own, which has
  seven of the sixteen patterns, in the same relative order. When the code returned is
  the code of one of these seven patterns, the suggestion is that pattern's; when the
  code is \<open>GEN000\<close>, the suggestion is the generic one.
\<close>

theorem suggestion_paired_with_code:
  "generateSmartSuggestion L m
     = first_match (map (\<lambda>(p, c, s). (p, s)) paired_table) generic_suggestion (L m)
   \<and> (\<forall>(p, c, s) \<in> set paired_table.
         generateSmartErrorCode L m = c \<longrightarrow> generateSmartSuggestion L m = s)
   \<and> (generateSmartErrorCode L m = ''GEN000''
        \<longrightarrow> generateSmartSuggestion L m = generic_suggestion)"
proof (intro conjI)
  show "generateSmartSuggestion L m
     = first_match (map (\<lambda>(p, c, s). (p, s)) paired_table) generic_suggestion (L m)"
    by (simp add: generateSmartSuggestion_def first_match_def
      paired_table_def generic_suggestion_def Let_def)
  show "\<forall>(p, c, s) \<in> set paired_table.
         generateSmartErrorCode L m = c \<longrightarrow> generateSmartSuggestion L m = s"
    by (simp add: generateSmartErrorCode_def generateSmartSuggestion_def
      paired_table_def Let_def)
  show "generateSmartErrorCode L m = ''GEN000''
        \<longrightarrow> generateSmartSuggestion L m = generic_suggestion"
    by (simp add: generateSmartErrorCode_def generateSmartSuggestion_def
      generic_suggestion_def Let_def)
qed

theorem suggestion_paired_with_code_witness:
  "generateSmartErrorCode ToLowerASCII ''read tcp: i/o Timeout'' = ''NET002''
   \<and> generateSmartSuggestion ToLowerASCII ''read tcp: i/o Timeout''
       = ''increase timeout duration, check network connectivity, or optimize the operation''
   \<and> generateSmartErrorCode ToLowerASCII ''unexpected EOF'' = ''GEN000''
   \<and> generateSmartSuggestion ToLowerASCII ''unexpected EOF'' = generic_suggestion"
proof -
  let ?m = "''read tcp: i/o Timeout''"
  let ?s = "''increase timeout duration, check network connectivity, or optimize the operation''"
  have low: "ToLowerASCII ?m = ''read tcp: i/o timeout''"
    by (simp add: ToLowerASCII_def lowerByte_def)
  have c: "generateSmartErrorCode ToLowerASCII ?m = ''NET002''"
    unfolding generateSmartErrorCode_def Let_def low by simp
  have mem: "(''timeout'', ''NET002'', ?s) \<in> set paired_table"
    by (simp add: paired_table_def)
  note t = suggestion_paired_with_code [of ToLowerASCII ?m]
  from t [THEN conjunct2, THEN conjunct1, THEN bspec, OF mem]
  have imp: "generateSmartErrorCode ToLowerASCII ?m = ''NET002''
      \<longrightarrow> generateSmartSuggestion ToLowerASCII ?m = ?s"
    by (simp only: prod.case)
  from imp c have s: "generateSmartSuggestion ToLowerASCII ?m = ?s"
    by (rule mp)
  have low2: "ToLowerASCII ''unexpected EOF'' = ''unexpected eof''"
    by (simp add: ToLowerASCII_def lowerByte_def)
  have g: "generateSmartErrorCode ToLowerASCII ''unexpected EOF'' = ''GEN000''"
    unfolding generateSmartErrorCode_def Let_def low2 by simp
  note u = suggestion_paired_with_code [of ToLowerASCII "''unexpected EOF''"]
  have d: "generateSmartSuggestion ToLowerASCII ''unexpected EOF'' = generic_suggestion"
    using u [THEN conjunct2, THEN conjunct2] g by (rule mp)
  from c s g d show ?thesis
    by (intro conjI)
qed

text \<open>
  C6 as stated fails: "file exists" has a code of its own and no suggestion of its own,
  and a message with "host not found" and "parse" takes its code from the first and its
  suggestion from the second.
\<close>

theorem suggestion_from_other_pattern_counterexample:
  "generateSmartErrorCode ToLowerASCII ''mkdir out: File exists'' = ''FS003''
   \<and> generateSmartSuggestion ToLowerASCII ''mkdir out: File exists'' = generic_suggestion
   \<and> generateSmartErrorCode ToLowerASCII ''lookup db: host not found, cannot parse reply''
       = ''NET003''
   \<and> generateSmartSuggestion ToLowerASCII ''lookup db: host not found, cannot parse reply''
       = ''validate input format, check for encoding issues, or review the data structure''"
proof -
  have low1: "ToLowerASCII ''mkdir out: File exists'' = ''mkdir out: file exists''"
    by (simp add: ToLowerASCII_def lowerByte_def)
  have low2: "ToLowerASCII ''lookup db: host not found, cannot parse reply''
      = ''lookup db: host not found, cannot parse reply''"
    by (simp add: ToLowerASCII_def lowerByte_def)
  show ?thesis
    unfolding generateSmartErrorCode_def generateSmartSuggestion_def Let_def low1 low2
    by (simp add: generic_suggestion_def)
qed

section \<open>Properties of the context merge\<close>

lemma mergeAbsent_lookup:
  "mergeAbsent ents ctx k = (case ctx k of Some v \<Rightarrow> Some v | None \<Rightarrow> map_of ents k)"
proof (induction ents arbitrary: ctx)
  case Nil
  show ?case by (simp add: mergeAbsent_def split: option.splits)
next
  case (Cons e ents)
  show ?case
  proof (cases e)
    case (Pair a b)
    have step: "mergeAbsent ((a, b) # ents) ctx
        = mergeAbsent ents (if ctx a = None then ctx(a \<mapsto> b) else ctx)"
      by (simp add: mergeAbsent_def)
    show ?thesis
      unfolding Pair step Cons.IH by (auto split: option.splits)
  qed
qed

text \<open>
  C2. Every key of the normalized explicit context keeps its explicit value in the merged
  map. A key the explicit context lacks gets the source-inferred value when source
  analysis is enabled and produced the key, and otherwise the stack-inferred value when
  stack analysis is enabled and produced the key.
\<close>

theorem explicit_context_wins:
  "(parseProvidedContext L Map.empty context k = Some v
      \<longrightarrow> buildSmartContext Catch L sourceCtx stackCtx file line context k = Some v)
   \<and> (parseProvidedContext L Map.empty context k = None
      \<longrightarrow> buildSmartContext Catch L sourceCtx stackCtx file line context k
          = (case (if EnableSmartAnalysis (getConfig Catch) then map_of (sourceCtx file line) k else None) of
               Some w \<Rightarrow> Some w
             | None \<Rightarrow> (if EnableStackAnalysis (getConfig Catch) then map_of stackCtx k else None)))"
  by (simp add: buildSmartContext_def Let_def mergeAbsent_lookup split: option.splits)


theorem explicit_context_wins_witness:
  "parseProvidedContext ToLowerASCII Map.empty [VString ''user_id'', VInt 42] ''user_id''
     = Some (VInt 42)
   \<and> buildSmartContext DefaultConfig ToLowerASCII (\<lambda>f l. [(''user_id'', VInt 7)])
        [(''user_id'', VInt 9), (''caller_function'', VString ''main.run'')]
        ''main.go'' 12 [VString ''user_id'', VInt 42] ''user_id'' = Some (VInt 42)
   \<and> parseProvidedContext ToLowerASCII Map.empty [VString ''user_id'', VInt 42]
        ''caller_function'' = None
   \<and> buildSmartContext DefaultConfig ToLowerASCII (\<lambda>f l. [(''user_id'', VInt 7)])
        [(''user_id'', VInt 9), (''caller_function'', VString ''main.run'')]
        ''main.go'' 12 [VString ''user_id'', VInt 42] ''caller_function''
       = Some (VString ''main.run'')"
proof -
  let ?ctx = "[VString ''user_id'', VInt 42]"
  let ?src = "\<lambda>(f::string) (l::int). [(''user_id'', VInt 7)]"
  let ?stk = "[(''user_id'', VInt 9), (''caller_function'', VString ''main.run'')]"
  have p: "parseProvidedContext ToLowerASCII Map.empty ?ctx
      = [''user_id'' \<mapsto> VInt 42, ''value_1'' \<mapsto> VInt 42]"
    by (simp add: parseProvidedContext_def parseItem_def upt_rec Itoa_def digits.simps
        digitByte_def)
  have e1: "parseProvidedContext ToLowerASCII Map.empty ?ctx ''user_id'' = Some (VInt 42)"
    unfolding p by simp
  have e2: "parseProvidedContext ToLowerASCII Map.empty ?ctx ''caller_function'' = None"
    unfolding p by simp
  note t1 = explicit_context_wins [of ToLowerASCII ?ctx "''user_id''" "VInt 42" DefaultConfig ?src ?stk "''main.go''" 12]
  note t2 = explicit_context_wins [of ToLowerASCII ?ctx "''caller_function''" "VInt 42" DefaultConfig ?src ?stk "''main.go''" 12]
  have r1: "buildSmartContext DefaultConfig ToLowerASCII ?src ?stk ''main.go'' 12 ?ctx ''user_id''
      = Some (VInt 42)"
    using t1 [THEN conjunct1] e1 by (rule mp)
  have "buildSmartContext DefaultConfig ToLowerASCII ?src ?stk ''main.go'' 12 ?ctx
      ''caller_function''
      = (case (if EnableSmartAnalysis (getConfig DefaultConfig)
               then map_of (?src ''main.go'' 12) ''caller_function'' else None) of
           Some w \<Rightarrow> Some w
         | None \<Rightarrow> (if EnableStackAnalysis (getConfig DefaultConfig)
                      then map_of ?stk ''caller_function'' else None))"
    using t2 [THEN conjunct2] e2 by (rule mp)
  then have r2: "buildSmartContext DefaultConfig ToLowerASCII ?src ?stk ''main.go'' 12 ?ctx
      ''caller_function'' = Some (VString ''main.run'')"
    by (simp add: getConfig_def DefaultConfig_def)
  show ?thesis
    using e1 r1 e2 r2 by (intro conjI)
qed

text \<open>
  C8. The value of a key/value pair is handled once more by the next round of the loop:
  the sequence ("file", "data.txt") gives the entry for "file" and also a "path" entry,
  so the claimed result, the single entry for "file", is not what the code returns; an
  integer value gets a \<open>value_1\<close> entry in the same way. A string alone gives "path"
  when it holds a slash or a dot, and "operation" otherwise.
\<close>

theorem pair_value_annotated_again:
  "parseProvidedContext L Map.empty [VString ''file'', VString ''data.txt'']
     = [''file'' \<mapsto> VString ''data.txt'', ''path'' \<mapsto> VString ''data.txt'']
   \<and> parseProvidedContext L Map.empty [VString ''file'', VString ''data.txt'']
     \<noteq> [''file'' \<mapsto> VString ''data.txt'']
   \<and> parseProvidedContext L Map.empty [VString ''user_id'', VInt 42]
     = [''user_id'' \<mapsto> VInt 42, ''value_1'' \<mapsto> VInt 42]
   \<and> parseProvidedContext L Map.empty [VString s]
     = (if isPathLike s then [''path'' \<mapsto> VString s] else [''operation'' \<mapsto> VString s])"
proof -
  have p: "parseProvidedContext L Map.empty [VString ''file'', VString ''data.txt'']
     = [''file'' \<mapsto> VString ''data.txt'', ''path'' \<mapsto> VString ''data.txt'']"
    by (simp add: parseProvidedContext_def parseItem_def isPathLike_def upt_rec)
  have "[''file'' \<mapsto> VString ''data.txt'', ''path'' \<mapsto> VString ''data.txt''] ''path''
      \<noteq> [''file'' \<mapsto> VString ''data.txt''] ''path''"
    by simp
  then have n: "[''file'' \<mapsto> VString ''data.txt'', ''path'' \<mapsto> VString ''data.txt'']
      \<noteq> [''file'' \<mapsto> VString ''data.txt'']"
    by (rule contrapos_nn) (erule arg_cong)
  have q: "parseProvidedContext L Map.empty [VString ''user_id'', VInt 42]
     = [''user_id'' \<mapsto> VInt 42, ''value_1'' \<mapsto> VInt 42]"
    by (simp add: parseProvidedContext_def parseItem_def upt_rec Itoa_def digits.simps
        digitByte_def)
  have r: "parseProvidedContext L Map.empty [VString s]
     = (if isPathLike s then [''path'' \<mapsto> VString s] else [''operation'' \<mapsto> VString s])"
    by (simp add: parseProvidedContext_def parseItem_def)
  from n show ?thesis
    unfolding p q r by simp
qed


section \<open>Properties of the source window\<close>

lemma wrap64_id: "isInt64 x \<Longrightarrow> wrap64 x = x"
  by (simp add: wrap64_def isInt64_def)

lemma filter_enumerate_above:
  "hi < int m \<Longrightarrow> filter (\<lambda>(n, text). lo \<le> int n \<and> int n \<le> hi) (enumerate m ts) = []"
  by (induction ts arbitrary: m) auto

lemma scanLoop_window:
  "0 \<le> cur \<Longrightarrow> cur + int (length ts) < 2 ^ 63 \<Longrightarrow>
   scanLoop lo hi c cur acc ts
     = acc @ map (\<lambda>(n, text). \<lparr>Number = int n, Content = text, IsError = (int n = c)\<rparr>)
         (filter (\<lambda>(n, text). lo \<le> int n \<and> int n \<le> hi) (enumerate (nat cur + 1) ts))"
proof (induction ts arbitrary: cur acc)
  case Nil
  show ?case by simp
next
  case (Cons t ts)
  have w: "wrap64 (cur + 1) = cur + 1"
    using Cons.prems by (intro wrap64_id) (simp add: isInt64_def)
  have n: "int (nat cur + 1) = cur + 1" "nat (cur + 1) + 1 = Suc (nat cur + 1)"
    using Cons.prems by simp_all
  show ?case
  proof (cases "cur + 1 > hi")
    case True
    then have "filter (\<lambda>(n, text). lo \<le> int n \<and> int n \<le> hi) (enumerate (nat cur + 1) (t # ts)) = []"
      using n by (intro filter_enumerate_above) simp
    with True show ?thesis by (simp add: w Let_def)
  next
    case False
    have ih: "scanLoop lo hi c (cur + 1) acc' ts
     = acc' @ map (\<lambda>(n, text). \<lparr>Number = int n, Content = text, IsError = (int n = c)\<rparr>)
         (filter (\<lambda>(n, text). lo \<le> int n \<and> int n \<le> hi) (enumerate (Suc (nat cur + 1)) ts))" for acc'
      using Cons.IH [of "cur + 1" acc'] Cons.prems n by simp
    from False show ?thesis
      using n by (auto simp add: w Let_def ih)
  qed
qed


lemma numbered_upt:
  "numbered 1 ls = map (\<lambda>n. (n, ls ! (n - 1))) [1..<Suc (length ls)]"
  unfolding numbered_def
  by (rule nth_equalityI) (simp_all add: nth_enumerate_eq del: upt_Suc)

lemma filter_upt_range:
  "filter (\<lambda>n. lo \<le> n \<and> n \<le> hi) [a..<b] = [max a lo..<min b (Suc hi)]"
proof (induction b)
  case 0
  show ?case by simp
next
  case (Suc b)
  show ?case
    using Suc.IH by (auto simp: min_def max_def not_less_eq_eq)
qed

lemma window_upt:
  assumes "1 \<le> lo"
  shows "window ls lo hi c
    = map (\<lambda>n. \<lparr>Number = int n, Content = ls ! (n - 1), IsError = (int n = c)\<rparr>)
        [nat lo..<min (Suc (length ls)) (nat (hi + 1))]"
proof (cases "0 \<le> hi")
  case True
  have "filter (\<lambda>(n, text). lo \<le> int n \<and> int n \<le> hi) (numbered 1 ls)
      = map (\<lambda>n. (n, ls ! (n - 1)))
          (filter (\<lambda>n. nat lo \<le> n \<and> n \<le> nat hi) [1..<Suc (length ls)])"
    unfolding numbered_upt filter_map
    by (rule arg_cong [where f = "map _"], rule filter_cong) (use assms True in auto)
  also have "filter (\<lambda>n. nat lo \<le> n \<and> n \<le> nat hi) [1..<Suc (length ls)]
      = [nat lo..<min (Suc (length ls)) (nat (hi + 1))]"
    unfolding filter_upt_range using assms True by (simp add: max_def nat_add_distrib)
  finally show ?thesis
    by (simp add: window_def comp_def)
next
  case False
  then have "filter (\<lambda>(n, text). lo \<le> int n \<and> int n \<le> hi) (numbered 1 ls) = []"
    by (auto simp: filter_empty_conv)
  with False show ?thesis
    by (simp add: window_def)
qed


lemma splitAtLF_nonempty: "splitAtLF s \<noteq> []"
  by (induction s) auto

lemma splitAtLF_line:
  "CHR 0x0A \<notin> set l \<Longrightarrow> splitAtLF (l @ CHR 0x0A # rest) = l # splitAtLF rest"
  by (induction l) auto

lemma splitAtLF_terminated:
  "(\<And>l. l \<in> set ls \<Longrightarrow> CHR 0x0A \<notin> set l) \<Longrightarrow>
   splitAtLF (concat (map (\<lambda>l. l @ [CHR 0x0A]) ls)) = ls @ [[]]"
proof (induction ls)
  case Nil
  show ?case by simp
next
  case (Cons l ls)
  have "splitAtLF (l @ CHR 0x0A # concat (map (\<lambda>l. l @ [CHR 0x0A]) ls))
      = l # splitAtLF (concat (map (\<lambda>l. l @ [CHR 0x0A]) ls))"
    using Cons.prems by (intro splitAtLF_line) simp
  then show ?case
    using Cons by simp
qed

lemma rawLines_terminated:
  "(\<And>l. l \<in> set ls \<Longrightarrow> CHR 0x0A \<notin> set l) \<Longrightarrow>
   rawLines (concat (map (\<lambda>l. l @ [CHR 0x0A]) ls)) = ls"
  by (simp add: rawLines_def splitAtLF_terminated)

lemma splitAtLF_size:
  "sum_list (map length (splitAtLF s)) + length (splitAtLF s) = Suc (length s)"
proof (induction s)
  case Nil
  show ?case by simp
next
  case (Cons c s)
  obtain x xs where x: "splitAtLF s = x # xs"
    using splitAtLF_nonempty [of s] by (cases "splitAtLF s") auto
  show ?case
    using Cons.IH by (simp add: x)
qed

lemma length_rawLines: "length (rawLines s) \<le> length s"
proof (cases "last (splitAtLF s) = []")
  case True
  then show ?thesis
    using splitAtLF_size [of s] by (simp add: rawLines_def)
next
  case False
  have "last (splitAtLF s) \<in> set (splitAtLF s)"
    by (simp add: splitAtLF_nonempty)
  then have "length (last (splitAtLF s)) \<le> sum_list (map length (splitAtLF s))"
    by (intro member_le_sum_list) simp_all
  moreover have "Suc 0 \<le> length (last (splitAtLF s))"
    using False by (cases "last (splitAtLF s)") simp_all
  ultimately have "length (splitAtLF s) \<le> length s"
    using splitAtLF_size [of s] by linarith
  then show ?thesis
    using False by (simp add: rawLines_def)
qed

lemma length_scannerLines: "length (scannerLines s) \<le> length s"
proof -
  have "length (scannerLines s) \<le> length (rawLines s)"
    by (simp add: scannerLines_def length_takeWhile_le)
  then show ?thesis
    using length_rawLines [of s] by simp
qed

lemma scannerLines_short:
  assumes "list_all (\<lambda>raw. length raw < MaxScanTokenSize) (rawLines s)"
  shows "scannerLines s = fileLines s"
proof -
  have "takeWhile (\<lambda>raw. length raw < MaxScanTokenSize) (rawLines s) = rawLines s"
    using assms by (simp add: list_all_iff)
  then show ?thesis
    unfolding scannerLines_def fileLines_def by (rule arg_cong)
qed

lemma digits_chars: "set (digits n) \<subseteq> set ''0123456789''"
proof (induction n rule: digits.induct)
  case (1 n)
  have d: "digitByte k \<in> set ''0123456789''" if "k < 10" for k
    unfolding digitByte_def using that by (intro nth_mem) simp
  show ?case
  proof (cases "n < 10")
    case True
    then show ?thesis
      using d [of n] by (subst digits.simps) simp
  next
    case False
    then show ?thesis
      using "1.IH" d [of "n mod 10"] by (subst digits.simps) simp
  qed
qed

lemma digits_nonempty: "digits n \<noteq> []"
  by (subst digits.simps) simp

lemma length_digits: "length (digits n) \<le> Suc n"
proof (induction n rule: digits.induct)
  case (1 n)
  show ?case
  proof (cases "n < 10")
    case True
    then show ?thesis
      by (subst digits.simps) simp
  next
    case False
    then have "length (digits (n div 10)) \<le> Suc (n div 10)"
      by (rule "1.IH")
    moreover have "Suc (n div 10) < Suc n"
      using False by simp
    ultimately show ?thesis
      using False by (subst digits.simps) simp
  qed
qed

lemma dropCR_digits: "dropCR (digits n) = digits n"
proof -
  have "last (digits n) \<in> set (digits n)"
    by (simp add: digits_nonempty)
  then have "last (digits n) \<in> set ''0123456789''"
    using digits_chars [of n] by blast
  then have "last (digits n) \<noteq> CHR 0x0D"
    by auto
  then show ?thesis
    by (simp add: dropCR_def)
qed

lemma digits_no_LF: "CHR 0x0A \<notin> set (digits n)"
  using digits_chars [of n] by auto

lemma length_concat_le:
  "(\<And>x. x \<in> set xs \<Longrightarrow> length (f x) \<le> k) \<Longrightarrow> length (concat (map f xs)) \<le> length xs * k"
proof (induction xs)
  case Nil
  show ?case by simp
next
  case (Cons x xs)
  have "length (f x) \<le> k"
    by (rule Cons.prems) simp
  moreover have "length (concat (map f xs)) \<le> length xs * k"
    by (rule Cons.IH) (simp add: Cons.prems)
  ultimately show ?case
    by simp
qed

lemma window_scanned:
  "int (length scanned) < 2 ^ 63 \<Longrightarrow>
   scanLoop (if wrap64 (c - r) < 1 then 1 else wrap64 (c - r)) (wrap64 (c + r)) c 0 [] scanned
     = window scanned (max 1 (wrap64 (c - r))) (wrap64 (c + r)) c"
  by (simp add: scanLoop_window window_def numbered_def max_def not_less)

text \<open>
  C3 (as amended). For a file that cannot be opened \<open>loadSourceContext\<close> returns the
  empty sequence. For a file that opens it returns, in order, exactly the lines that
  \<open>bufio.Scanner\<close> yields whose number lies between the two bounds as the source
  computes them, in 64-bit arithmetic, the line numbered \<open>centerLine\<close> flagged. When
  \<open>centerLine - radius\<close> and \<open>centerLine + radius\<close> fit in 64 bits and every line of
  the file has fewer than \<open>MaxScanTokenSize\<close> bytes before its line feed, these are
  exactly the lines of the file whose number lies between \<open>max(1, centerLine - radius)\<close>
  and \<open>centerLine + radius\<close>. For a 100-line file of such lines, center 50 and radius 2
  give lines 48 to 52 with line 50 flagged, and center 1 and radius 2 give lines 1 to 3.
\<close>

theorem loadSourceContext_window:
  "(openFile path = None \<longrightarrow> loadSourceContext openFile path c r = [])
   \<and> (openFile path = Some bytes \<and> int (length bytes) < 2 ^ 63 \<longrightarrow>
        loadSourceContext openFile path c r
          = window (scannerLines bytes) (max 1 (wrap64 (c - r))) (wrap64 (c + r)) c)
   \<and> (openFile path = Some bytes \<and> int (length bytes) < 2 ^ 63
        \<and> isInt64 (c - r) \<and> isInt64 (c + r)
        \<and> list_all (\<lambda>raw. length raw < MaxScanTokenSize) (rawLines bytes) \<longrightarrow>
        loadSourceContext openFile path c r
          = window (fileLines bytes) (max 1 (c - r)) (c + r) c)
   \<and> (openFile path = Some bytes \<and> length (fileLines bytes) = 100
        \<and> list_all (\<lambda>raw. length raw < MaxScanTokenSize) (rawLines bytes) \<longrightarrow>
        loadSourceContext openFile path 50 2
          = [\<lparr>Number = 48, Content = fileLines bytes ! 47, IsError = False\<rparr>,
             \<lparr>Number = 49, Content = fileLines bytes ! 48, IsError = False\<rparr>,
             \<lparr>Number = 50, Content = fileLines bytes ! 49, IsError = True\<rparr>,
             \<lparr>Number = 51, Content = fileLines bytes ! 50, IsError = False\<rparr>,
             \<lparr>Number = 52, Content = fileLines bytes ! 51, IsError = False\<rparr>]
        \<and> loadSourceContext openFile path 1 2
          = [\<lparr>Number = 1, Content = fileLines bytes ! 0, IsError = True\<rparr>,
             \<lparr>Number = 2, Content = fileLines bytes ! 1, IsError = False\<rparr>,
             \<lparr>Number = 3, Content = fileLines bytes ! 2, IsError = False\<rparr>])"
proof -
  have gen: "loadSourceContext openFile path c r
      = window (scannerLines bytes) (max 1 (wrap64 (c - r))) (wrap64 (c + r)) c"
    if "openFile path = Some bytes" "int (length (scannerLines bytes)) < 2 ^ 63" for c r
    using that by (simp add: loadSourceContext_def Let_def window_scanned)
  have len: "int (length (scannerLines bytes)) < 2 ^ 63" if "int (length bytes) < 2 ^ 63"
    using that length_scannerLines [of bytes] by simp
  have ex: "loadSourceContext openFile path c 2
      = window (fileLines bytes) (max 1 (c - 2)) (c + 2) c"
    if "openFile path = Some bytes" "length (fileLines bytes) = 100"
      "list_all (\<lambda>raw. length raw < MaxScanTokenSize) (rawLines bytes)" "c = 50 \<or> c = 1" for c
  proof -
    have s: "scannerLines bytes = fileLines bytes"
      using that(3) by (rule scannerLines_short)
    have "isInt64 (c - 2)" "isInt64 (c + 2)"
      using that(4) by (auto simp: isInt64_def)
    then show ?thesis
      using gen [of c 2] that(1,2) by (simp add: s wrap64_id)
  qed
  have list5: "[48..<53] = [48, 49, 50, 51, 52::nat]" and list3: "[Suc 0..<4] = [Suc 0, 2, 3]"
    by (simp_all add: upt_rec)
  show ?thesis
  proof (intro conjI impI; (elim conjE)?)
    show "openFile path = None \<Longrightarrow> loadSourceContext openFile path c r = []"
      by (simp add: loadSourceContext_def)
    show "openFile path = Some bytes \<Longrightarrow> int (length bytes) < 2 ^ 63 \<Longrightarrow>
        loadSourceContext openFile path c r
          = window (scannerLines bytes) (max 1 (wrap64 (c - r))) (wrap64 (c + r)) c"
      by (intro gen len)
    show "openFile path = Some bytes \<Longrightarrow> int (length bytes) < 2 ^ 63 \<Longrightarrow>
        isInt64 (c - r) \<Longrightarrow> isInt64 (c + r) \<Longrightarrow>
        list_all (\<lambda>raw. length raw < MaxScanTokenSize) (rawLines bytes) \<Longrightarrow>
        loadSourceContext openFile path c r
          = window (fileLines bytes) (max 1 (c - r)) (c + r) c"
      using gen [of c r] len by (simp add: wrap64_id scannerLines_short)
    show "openFile path = Some bytes \<Longrightarrow> length (fileLines bytes) = 100 \<Longrightarrow>
        list_all (\<lambda>raw. length raw < MaxScanTokenSize) (rawLines bytes) \<Longrightarrow>
        loadSourceContext openFile path 50 2
          = [\<lparr>Number = 48, Content = fileLines bytes ! 47, IsError = False\<rparr>,
             \<lparr>Number = 49, Content = fileLines bytes ! 48, IsError = False\<rparr>,
             \<lparr>Number = 50, Content = fileLines bytes ! 49, IsError = True\<rparr>,
             \<lparr>Number = 51, Content = fileLines bytes ! 50, IsError = False\<rparr>,
             \<lparr>Number = 52, Content = fileLines bytes ! 51, IsError = False\<rparr>]"
      by (simp add: ex window_upt list5)
    show "openFile path = Some bytes \<Longrightarrow> length (fileLines bytes) = 100 \<Longrightarrow>
        list_all (\<lambda>raw. length raw < MaxScanTokenSize) (rawLines bytes) \<Longrightarrow>
        loadSourceContext openFile path 1 2
          = [\<lparr>Number = 1, Content = fileLines bytes ! 0, IsError = True\<rparr>,
             \<lparr>Number = 2, Content = fileLines bytes ! 1, IsError = False\<rparr>,
             \<lparr>Number = 3, Content = fileLines bytes ! 2, IsError = False\<rparr>]"
      by (simp add: ex window_upt list3)
  qed
qed


theorem loadSourceContext_window_witness:
  "loadSourceContext
      (\<lambda>p. if p = ''main.go'' then Some (concat (map (\<lambda>n. digits n @ [CHR 0x0A]) [1..<101]))
           else None) ''main.go'' 50 2
     = [\<lparr>Number = 48, Content = ''48'', IsError = False\<rparr>,
        \<lparr>Number = 49, Content = ''49'', IsError = False\<rparr>,
        \<lparr>Number = 50, Content = ''50'', IsError = True\<rparr>,
        \<lparr>Number = 51, Content = ''51'', IsError = False\<rparr>,
        \<lparr>Number = 52, Content = ''52'', IsError = False\<rparr>]
   \<and> loadSourceContext
      (\<lambda>p. if p = ''main.go'' then Some (concat (map (\<lambda>n. digits n @ [CHR 0x0A]) [1..<101]))
           else None) ''main.go'' 1 2
     = [\<lparr>Number = 1, Content = ''1'', IsError = True\<rparr>,
        \<lparr>Number = 2, Content = ''2'', IsError = False\<rparr>,
        \<lparr>Number = 3, Content = ''3'', IsError = False\<rparr>]
   \<and> loadSourceContext
      (\<lambda>p. if p = ''main.go'' then Some (concat (map (\<lambda>n. digits n @ [CHR 0x0A]) [1..<101]))
           else None) ''gone.go'' 50 2 = []
   \<and> loadSourceContext
      (\<lambda>p. if p = ''main.go'' then Some (concat (map (\<lambda>n. digits n @ [CHR 0x0A]) [1..<101]))
           else None) ''main.go'' 99 3
     = [\<lparr>Number = 96, Content = ''96'', IsError = False\<rparr>,
        \<lparr>Number = 97, Content = ''97'', IsError = False\<rparr>,
        \<lparr>Number = 98, Content = ''98'', IsError = False\<rparr>,
        \<lparr>Number = 99, Content = ''99'', IsError = True\<rparr>,
        \<lparr>Number = 100, Content = ''100'', IsError = False\<rparr>]
   \<and> loadSourceContext
      (\<lambda>p. if p = ''main.go'' then Some (concat (map (\<lambda>n. digits n @ [CHR 0x0A]) [1..<101]))
           else None) ''main.go'' 1 (2 ^ 63 - 1) = []"
proof -
  let ?ls = "map digits [1..<101]"
  let ?bytes = "concat (map (\<lambda>n. digits n @ [CHR 0x0A]) [1..<101])"
  let ?fs = "\<lambda>p. if p = ''main.go'' then Some ?bytes else None"
  have "rawLines (concat (map (\<lambda>l. l @ [CHR 0x0A]) ?ls)) = ?ls"
    by (rule rawLines_terminated) (auto simp: digits_no_LF)
  then have raw: "rawLines ?bytes = ?ls"
    by (simp add: comp_def del: upt_Suc)
  have fl: "fileLines ?bytes = ?ls"
    unfolding fileLines_def raw by (simp add: dropCR_digits del: upt_Suc)
  have short: "list_all (\<lambda>raw. length raw < MaxScanTokenSize) (rawLines ?bytes)"
    unfolding raw list_all_iff
  proof
    fix l
    assume "l \<in> set ?ls"
    then obtain n where n: "l = digits n" "n < 101"
      by auto
    show "length l < MaxScanTokenSize"
      using length_digits [of n] n by (simp add: MaxScanTokenSize_def)
  qed
  have "length ?bytes \<le> length [1..<101::nat] * 102"
  proof (rule length_concat_le)
    fix n :: nat
    assume "n \<in> set [1..<101]"
    then show "length (digits n @ [CHR 0x0A]) \<le> 102"
      using length_digits [of n] by simp
  qed
  then have size: "int (length ?bytes) < 2 ^ 63"
    by simp
  have o: "?fs ''main.go'' = Some ?bytes"
    by simp
  have g: "?fs ''gone.go'' = None"
    by simp
  have c: "?ls ! 47 = ''48''" "?ls ! 48 = ''49''" "?ls ! 49 = ''50''" "?ls ! 50 = ''51''"
    "?ls ! 51 = ''52''" "?ls ! 0 = ''1''" "?ls ! 1 = ''2''" "?ls ! 2 = ''3''"
    "?ls ! 95 = ''96''" "?ls ! 96 = ''97''" "?ls ! 97 = ''98''" "?ls ! 98 = ''99''"
    "?ls ! 99 = ''100''"
    by (simp_all add: digits.simps digitByte_def del: upt_Suc)
  note t = loadSourceContext_window
    [where openFile = ?fs and path = "''main.go''" and bytes = ?bytes and c = 50 and r = 2]
  note u = loadSourceContext_window
    [where openFile = ?fs and path = "''gone.go''" and bytes = ?bytes and c = 50 and r = 2]
  note v = loadSourceContext_window
    [where openFile = ?fs and path = "''main.go''" and bytes = ?bytes and c = 99 and r = 3]
  note x = loadSourceContext_window
    [where openFile = ?fs and path = "''main.go''" and bytes = ?bytes and c = 1
       and r = "2 ^ 63 - 1"]
  have h4: "?fs ''main.go'' = Some ?bytes \<and> length (fileLines ?bytes) = 100
      \<and> list_all (\<lambda>raw. length raw < MaxScanTokenSize) (rawLines ?bytes)"
    unfolding fl using o short by simp
  have a: "loadSourceContext ?fs ''main.go'' 50 2
     = [\<lparr>Number = 48, Content = fileLines ?bytes ! 47, IsError = False\<rparr>,
        \<lparr>Number = 49, Content = fileLines ?bytes ! 48, IsError = False\<rparr>,
        \<lparr>Number = 50, Content = fileLines ?bytes ! 49, IsError = True\<rparr>,
        \<lparr>Number = 51, Content = fileLines ?bytes ! 50, IsError = False\<rparr>,
        \<lparr>Number = 52, Content = fileLines ?bytes ! 51, IsError = False\<rparr>]
   \<and> loadSourceContext ?fs ''main.go'' 1 2
     = [\<lparr>Number = 1, Content = fileLines ?bytes ! 0, IsError = True\<rparr>,
        \<lparr>Number = 2, Content = fileLines ?bytes ! 1, IsError = False\<rparr>,
        \<lparr>Number = 3, Content = fileLines ?bytes ! 2, IsError = False\<rparr>]"
    using t [THEN conjunct2, THEN conjunct2, THEN conjunct2] h4 by (rule mp)
  have b: "loadSourceContext ?fs ''gone.go'' 50 2 = []"
    using u [THEN conjunct1] g by (rule mp)
  have h3: "?fs ''main.go'' = Some ?bytes \<and> int (length ?bytes) < 2 ^ 63
      \<and> isInt64 (99 - 3) \<and> isInt64 (99 + 3)
      \<and> list_all (\<lambda>raw. length raw < MaxScanTokenSize) (rawLines ?bytes)"
    using o size short by (simp add: isInt64_def)
  have "loadSourceContext ?fs ''main.go'' 99 3
      = window (fileLines ?bytes) (max 1 (99 - 3)) (99 + 3) 99"
    using v [THEN conjunct2, THEN conjunct2, THEN conjunct1] h3 by (rule mp)
  also have "\<dots> = map (\<lambda>n. \<lparr>Number = int n, Content = ?ls ! (n - 1), IsError = (int n = 99)\<rparr>)
        [96..<101]"
    unfolding fl by (simp add: window_upt del: upt_Suc)
  also have "[96..<101] = [96, 97, 98, 99, 100::nat]"
    by (simp add: upt_rec)
  finally have d: "loadSourceContext ?fs ''main.go'' 99 3
     = [\<lparr>Number = 96, Content = ?ls ! 95, IsError = False\<rparr>,
        \<lparr>Number = 97, Content = ?ls ! 96, IsError = False\<rparr>,
        \<lparr>Number = 98, Content = ?ls ! 97, IsError = False\<rparr>,
        \<lparr>Number = 99, Content = ?ls ! 98, IsError = True\<rparr>,
        \<lparr>Number = 100, Content = ?ls ! 99, IsError = False\<rparr>]"
    by simp
  have h2: "?fs ''main.go'' = Some ?bytes \<and> int (length ?bytes) < 2 ^ 63"
    using o size by simp
  have "loadSourceContext ?fs ''main.go'' 1 (2 ^ 63 - 1)
      = window (scannerLines ?bytes) (max 1 (wrap64 (1 - (2 ^ 63 - 1))))
          (wrap64 (1 + (2 ^ 63 - 1))) 1"
    using x [THEN conjunct2, THEN conjunct1] h2 by (rule mp)
  also have "wrap64 (1 + (2 ^ 63 - 1)) = - (2 ^ 63)"
    by (simp add: wrap64_def)
  also have "window (scannerLines ?bytes) (max 1 (wrap64 (1 - (2 ^ 63 - 1)))) (- (2 ^ 63)) 1 = []"
    by (simp add: window_upt)
  finally have e: "loadSourceContext ?fs ''main.go'' 1 (2 ^ 63 - 1) = []" .
  show ?thesis
    using a b d e unfolding fl c by simp
qed

text \<open>
  C3 as stated fails where the bounds leave the 64-bit range and where a line is too long
  for the scanner. With center 1 and radius \<open>2 ^ 63 - 1\<close> the sum wraps around to a
  negative bound and nothing is returned, though every line of the file lies between
  \<open>max(1, centerLine - radius)\<close> and \<open>centerLine + radius\<close>. With center
  \<open>- (2 ^ 63)\<close> and radius \<open>5 - 2 ^ 63\<close> the sum wraps around to 5 and the lines 1
  to 3 of a three-line file are returned, though no number lies between the two bounds.
  After a first line of \<open>MaxScanTokenSize\<close> bytes the scanner stops, and line 2 of the
  file is not returned for center 2 and radius 0.
\<close>

theorem loadSourceContext_overflow_counterexample:
  "loadSourceContext (\<lambda>p. Some ''a\<newline>b\<newline>c\<newline>'') ''main.go'' 1 (2 ^ 63 - 1) = []
   \<and> window (fileLines ''a\<newline>b\<newline>c\<newline>'') (max 1 (1 - (2 ^ 63 - 1))) (1 + (2 ^ 63 - 1)) 1
     = [\<lparr>Number = 1, Content = ''a'', IsError = True\<rparr>,
        \<lparr>Number = 2, Content = ''b'', IsError = False\<rparr>,
        \<lparr>Number = 3, Content = ''c'', IsError = False\<rparr>]
   \<and> loadSourceContext (\<lambda>p. Some ''a\<newline>b\<newline>c\<newline>'') ''main.go'' (- (2 ^ 63)) (5 - 2 ^ 63)
     = [\<lparr>Number = 1, Content = ''a'', IsError = False\<rparr>,
        \<lparr>Number = 2, Content = ''b'', IsError = False\<rparr>,
        \<lparr>Number = 3, Content = ''c'', IsError = False\<rparr>]
   \<and> window (fileLines ''a\<newline>b\<newline>c\<newline>'') (max 1 (- (2 ^ 63) - (5 - 2 ^ 63)))
        (- (2 ^ 63) + (5 - 2 ^ 63)) (- (2 ^ 63)) = []
   \<and> loadSourceContext (\<lambda>p. Some (replicate MaxScanTokenSize (CHR ''x'') @ ''\<newline>b''))
        ''main.go'' 2 0 = []
   \<and> window (fileLines (replicate MaxScanTokenSize (CHR ''x'') @ ''\<newline>b''))
        (max 1 (2 - 0)) (2 + 0) 2
     = [\<lparr>Number = 2, Content = ''b'', IsError = True\<rparr>]"
proof -
  let ?long = "replicate MaxScanTokenSize (CHR ''x'')"
  have abc: "rawLines ''a\<newline>b\<newline>c\<newline>'' = [''a'', ''b'', ''c'']"
    by (simp add: rawLines_def)
  have sl: "scannerLines ''a\<newline>b\<newline>c\<newline>'' = [''a'', ''b'', ''c'']"
    by (simp add: scannerLines_def abc dropCR_def MaxScanTokenSize_def)
  have fl: "fileLines ''a\<newline>b\<newline>c\<newline>'' = [''a'', ''b'', ''c'']"
    by (simp add: fileLines_def abc dropCR_def)
  have p1: "loadSourceContext (\<lambda>p. Some ''a\<newline>b\<newline>c\<newline>'') ''main.go'' 1 (2 ^ 63 - 1) = []"
    by (simp add: loadSourceContext_def Let_def sl wrap64_def)
  have p2: "window (fileLines ''a\<newline>b\<newline>c\<newline>'') (max 1 (1 - (2 ^ 63 - 1))) (1 + (2 ^ 63 - 1)) 1
     = [\<lparr>Number = 1, Content = ''a'', IsError = True\<rparr>,
        \<lparr>Number = 2, Content = ''b'', IsError = False\<rparr>,
        \<lparr>Number = 3, Content = ''c'', IsError = False\<rparr>]"
    unfolding fl by (simp add: window_def numbered_def)
  have p3: "loadSourceContext (\<lambda>p. Some ''a\<newline>b\<newline>c\<newline>'') ''main.go'' (- (2 ^ 63)) (5 - 2 ^ 63)
     = [\<lparr>Number = 1, Content = ''a'', IsError = False\<rparr>,
        \<lparr>Number = 2, Content = ''b'', IsError = False\<rparr>,
        \<lparr>Number = 3, Content = ''c'', IsError = False\<rparr>]"
    by (simp add: loadSourceContext_def Let_def sl wrap64_def)
  have p4: "window (fileLines ''a\<newline>b\<newline>c\<newline>'') (max 1 (- (2 ^ 63) - (5 - 2 ^ 63)))
        (- (2 ^ 63) + (5 - 2 ^ 63)) (- (2 ^ 63)) = []"
    unfolding fl by (simp add: window_def numbered_def)
  have "CHR 0x0A \<notin> set ?long"
    by simp
  then have "splitAtLF (?long @ CHR 0x0A # ''b'') = ?long # splitAtLF ''b''"
    by (rule splitAtLF_line)
  then have raw: "rawLines (?long @ ''\<newline>b'') = [?long, ''b'']"
    by (simp add: rawLines_def)
  have pos: "0 < MaxScanTokenSize"
    by (simp add: MaxScanTokenSize_def)
  have "scannerLines (?long @ ''\<newline>b'') = []"
    unfolding scannerLines_def raw by simp
  then have p5: "loadSourceContext (\<lambda>p. Some (?long @ ''\<newline>b'')) ''main.go'' 2 0 = []"
    by (simp add: loadSourceContext_def Let_def)
  have "fileLines (?long @ ''\<newline>b'') = [?long, ''b'']"
    unfolding fileLines_def raw using pos by (simp add: dropCR_def)
  then have p6: "window (fileLines (?long @ ''\<newline>b'')) (max 1 (2 - 0)) (2 + 0) 2
     = [\<lparr>Number = 2, Content = ''b'', IsError = True\<rparr>]"
    by (simp add: window_def numbered_def)
  show ?thesis
    using p1 p2 p3 p4 p5 p6 by (intro conjI)
qed


section \<open>Properties of the stack capture\<close>

lemma stackLoop_length:
  "(\<And>j. i \<le> j \<Longrightarrow> j < bound \<Longrightarrow> Caller j \<noteq> None) \<Longrightarrow>
   length (stackLoop Caller i bound stack) = length stack + nat (bound - i)"
proof (induction Caller i bound stack rule: stackLoop.induct)
  case (1 Caller i bound stack)
  show ?case
  proof (cases "i < bound")
    case False
    then show ?thesis by (simp add: stackLoop.simps [of Caller i])
  next
    case True
    with "1.prems" [of i] obtain fr where fr: "Caller i = Some fr" by auto
    have "length (stackLoop Caller (i + 1) bound
        (stack @ [\<lparr>FrameFile = pcFile fr, FrameLine = pcLine fr, FrameFunction = frameFuncName (pcFunc fr)\<rparr>]))
        = length (stack @ [\<lparr>FrameFile = pcFile fr, FrameLine = pcLine fr, FrameFunction = frameFuncName (pcFunc fr)\<rparr>])
          + nat (bound - (i + 1))"
      using True fr "1.prems" by (intro "1.IH") auto
    with True fr show ?thesis
      by (simp add: stackLoop.simps [of Caller i] nat_diff_distrib)
  qed
qed

lemma stackLoop_length_le:
  "length (stackLoop Caller i bound stack) \<le> length stack + nat (bound - i)"
proof (induction Caller i bound stack rule: stackLoop.induct)
  case (1 Caller i bound stack)
  show ?case
  proof (cases "i < bound")
    case False
    then show ?thesis by (simp add: stackLoop.simps [of Caller i])
  next
    case True
    show ?thesis
    proof (cases "Caller i")
      case None
      with True show ?thesis by (simp add: stackLoop.simps [of Caller i])
    next
      case (Some fr)
      with True "1.IH" [of fr] show ?thesis
        by (simp add: stackLoop.simps [of Caller i])
    qed
  qed
qed

text \<open>
  C9. With a configured maximum depth \<open>d\<close> and no overflow, \<open>buildStackTrace\<close>
  never returns more than \<open>d - 1\<close> frames, and it returns exactly \<open>d - 1\<close> frames
  when the \<open>d\<close> callers above the skip point can all be resolved: one frame fewer
  than the claim states.
\<close>

theorem stack_capture_one_short:
  "(0 \<le> skip \<and> 1 \<le> MaxStackDepth cfg \<and> skip + MaxStackDepth cfg < 2 ^ 63
     \<longrightarrow> int (length (buildStackTrace cfg Caller skip)) \<le> MaxStackDepth cfg - 1)
   \<and> ((\<forall>i. skip < i \<and> i \<le> skip + MaxStackDepth cfg \<longrightarrow> Caller i \<noteq> None)
       \<and> 0 \<le> skip \<and> 1 \<le> MaxStackDepth cfg \<and> skip + MaxStackDepth cfg < 2 ^ 63
     \<longrightarrow> int (length (buildStackTrace cfg Caller skip)) = MaxStackDepth cfg - 1)"
proof -
  have eq: "buildStackTrace cfg Caller skip
      = stackLoop Caller (skip + 1) (skip + MaxStackDepth cfg) []"
    if a: "0 \<le> skip" "1 \<le> MaxStackDepth cfg" "skip + MaxStackDepth cfg < 2 ^ 63"
  proof -
    have g: "getConfig cfg = cfg"
      using a(2) by (simp add: getConfig_def)
    have w: "wrap64 (skip + 1) = skip + 1"
      "wrap64 (skip + MaxStackDepth cfg) = skip + MaxStackDepth cfg"
      using a by (simp_all add: wrap64_id isInt64_def)
    show ?thesis
      by (simp add: buildStackTrace_def g w Let_def)
  qed
  have le: "int (length (buildStackTrace cfg Caller skip)) \<le> MaxStackDepth cfg - 1"
    if a: "0 \<le> skip" "1 \<le> MaxStackDepth cfg" "skip + MaxStackDepth cfg < 2 ^ 63"
    using stackLoop_length_le [of Caller "skip + 1" "skip + MaxStackDepth cfg" "[]"] a
    by (simp add: eq)
  have ex: "int (length (buildStackTrace cfg Caller skip)) = MaxStackDepth cfg - 1"
    if r: "\<forall>i. skip < i \<and> i \<le> skip + MaxStackDepth cfg \<longrightarrow> Caller i \<noteq> None"
      and a: "0 \<le> skip" "1 \<le> MaxStackDepth cfg" "skip + MaxStackDepth cfg < 2 ^ 63"
  proof -
    have "length (stackLoop Caller (skip + 1) (skip + MaxStackDepth cfg) [])
        = length ([] :: StackFrame list) + nat (skip + MaxStackDepth cfg - (skip + 1))"
      using r by (intro stackLoop_length) auto
    then show ?thesis
      using a by (simp add: eq)
  qed
  show ?thesis
    using le ex by blast
qed

theorem stack_capture_one_short_witness:
  "int (length (buildStackTrace (DefaultConfig\<lparr>MaxStackDepth := 3\<rparr>)
      (\<lambda>i. if 0 \<le> i \<and> i < 10
           then Some \<lparr>pcFunc = Some ''main.run'', pcFile = ''main.go'', pcLine = 10 + i\<rparr>
           else None) 1)) = 2
   \<and> int (length (buildStackTrace (DefaultConfig\<lparr>MaxStackDepth := 3\<rparr>)
      (\<lambda>i. if 0 \<le> i \<and> i < 2
           then Some \<lparr>pcFunc = Some ''main.run'', pcFile = ''main.go'', pcLine = 10 + i\<rparr>
           else None) 1)) \<le> 2"
proof -
  let ?cfg = "DefaultConfig\<lparr>MaxStackDepth := 3\<rparr>"
  let ?Caller = "\<lambda>i::int. if 0 \<le> i \<and> i < 10
           then Some \<lparr>pcFunc = Some ''main.run'', pcFile = ''main.go'', pcLine = 10 + i\<rparr>
           else None"
  let ?Short = "\<lambda>i::int. if 0 \<le> i \<and> i < 2
           then Some \<lparr>pcFunc = Some ''main.run'', pcFile = ''main.go'', pcLine = 10 + i\<rparr>
           else None"
  have d: "MaxStackDepth ?cfg = 3"
    by simp
  have h: "(\<forall>i. 1 < i \<and> i \<le> 1 + MaxStackDepth ?cfg \<longrightarrow> ?Caller i \<noteq> None)
       \<and> (0::int) \<le> 1 \<and> 1 \<le> MaxStackDepth ?cfg \<and> 1 + MaxStackDepth ?cfg < 2 ^ 63"
    unfolding d by simp
  have "int (length (buildStackTrace ?cfg ?Caller 1)) = MaxStackDepth ?cfg - 1"
    using stack_capture_one_short [of 1 ?cfg ?Caller, THEN conjunct2] h by (rule mp)
  then have a: "int (length (buildStackTrace ?cfg ?Caller 1)) = 2"
    unfolding d by simp
  have h': "(0::int) \<le> 1 \<and> 1 \<le> MaxStackDepth ?cfg \<and> 1 + MaxStackDepth ?cfg < 2 ^ 63"
    unfolding d by simp
  have "int (length (buildStackTrace ?cfg ?Short 1)) \<le> MaxStackDepth ?cfg - 1"
    using stack_capture_one_short [of 1 ?cfg ?Short, THEN conjunct1] h' by (rule mp)
  then have b: "int (length (buildStackTrace ?cfg ?Short 1)) \<le> 2"
    unfolding d by simp
  from a b show ?thesis
    by (rule conjI)
qed

section \<open>Properties of the renderer\<close>

lemmas code_defs = Reset_def Bold_def Red_def Green_def Yellow_def Blue_def Magenta_def
  Cyan_def White_def BrightRed_def Gray_def

lemma HasPrefix_append_self: "HasPrefix (e @ c) e"
  by (induction e) auto

lemma escape_shape: "t \<in> set escapes \<Longrightarrow> \<exists>t'. t = ESC # t' \<and> escFree t'"
  by (auto simp: escapes_def code_defs ESC_def escFree_def)

lemma escape_prefix_free:
  "e \<in> set escapes \<Longrightarrow> t \<in> set escapes \<Longrightarrow> HasPrefix (t @ c) e = (e = t)"
  by (auto simp: escapes_def code_defs ESC_def)

lemma ReplaceAll_text:
  "e \<noteq> [] \<Longrightarrow> hd e = ESC \<Longrightarrow> escFree x \<Longrightarrow>
   ReplaceAllWithEmpty (x @ c) e = x @ ReplaceAllWithEmpty c e"
proof (induction x)
  case Nil
  show ?case by simp
next
  case (Cons a x)
  from Cons.prems obtain e' where e: "e = ESC # e'"
    by (cases e) auto
  from Cons.prems have "a \<noteq> ESC" "escFree x"
    by (auto simp: escFree_def)
  then show ?case
    using Cons.IH Cons.prems(1,2) by (simp add: e)
qed

lemma ReplaceAll_same:
  assumes "e \<in> set escapes"
  shows "ReplaceAllWithEmpty (e @ c) e = ReplaceAllWithEmpty c e"
proof -
  from escape_shape [OF assms] obtain e' where e: "e = ESC # e'" by blast
  have "HasPrefix (ESC # e' @ c) (ESC # e')"
    using HasPrefix_append_self [of "ESC # e'" c] by simp
  then show ?thesis
    by (simp add: e)
qed

lemma ReplaceAll_other:
  assumes "e \<in> set escapes" "t \<in> set escapes" "t \<noteq> e"
  shows "ReplaceAllWithEmpty (t @ c) e = t @ ReplaceAllWithEmpty c e"
proof -
  from escape_shape [OF assms(1)] obtain e' where e: "e = ESC # e'" by blast
  from escape_shape [OF assms(2)] obtain t' where t: "t = ESC # t'" "escFree t'" by blast
  have "\<not> HasPrefix (t @ c) e"
    using escape_prefix_free [OF assms(1,2)] assms(3) by simp
  then have "ReplaceAllWithEmpty (t @ c) e = ESC # ReplaceAllWithEmpty (t' @ c) e"
    by (simp add: t e)
  also have "ReplaceAllWithEmpty (t' @ c) e = t' @ ReplaceAllWithEmpty c e"
    using t(2) by (intro ReplaceAll_text) (simp_all add: e)
  finally show ?thesis
    by (simp add: t)
qed

lemma styled_strip_one:
  assumes "e \<in> set escapes" "E \<subseteq> set escapes" "styled E c p"
  shows "styled (E - {e}) (ReplaceAllWithEmpty c e) p"
  using assms(3)
proof (induction rule: styled.induct)
  case styled_Nil
  show ?case by (simp add: styled.styled_Nil)
next
  case (styled_code t c p)
  show ?case
  proof (cases "t = e")
    case True
    then show ?thesis
      using styled_code.IH assms(1) by (simp add: ReplaceAll_same)
  next
    case False
    have "t \<in> set escapes"
      using styled_code.hyps(1) assms(2) by auto
    then have "ReplaceAllWithEmpty (t @ c) e = t @ ReplaceAllWithEmpty c e"
      using assms(1) False by (intro ReplaceAll_other)
    moreover have "t \<in> E - {e}"
      using styled_code.hyps(1) False by simp
    ultimately show ?thesis
      using styled_code.IH by (simp add: styled.styled_code)
  qed
next
  case (styled_text x c p)
  from escape_shape [OF assms(1)] obtain e' where e: "e = ESC # e'" by blast
  have "ReplaceAllWithEmpty (x @ c) e = x @ ReplaceAllWithEmpty c e"
    using styled_text.hyps(1) by (intro ReplaceAll_text) (simp_all add: e)
  then show ?case
    using styled_text.IH styled_text.hyps(1) by (simp add: styled.styled_text)
qed

lemma styled_strip_fold:
  "set es \<subseteq> set escapes \<Longrightarrow> E \<subseteq> set escapes \<Longrightarrow> styled E c p \<Longrightarrow>
   styled (E - set es) (fold (\<lambda>escape result. ReplaceAllWithEmpty result escape) es c) p"
proof (induction es arbitrary: E c)
  case Nil
  then show ?case by simp
next
  case (Cons e es)
  have "styled (E - {e}) (ReplaceAllWithEmpty c e) p"
    using Cons.prems by (intro styled_strip_one) auto
  then have "styled (E - {e} - set es)
      (fold (\<lambda>escape result. ReplaceAllWithEmpty result escape) es (ReplaceAllWithEmpty c e)) p"
    using Cons.prems by (intro Cons.IH) auto
  moreover have "E - {e} - set es = E - set (e # es)"
    by auto
  ultimately show ?case
    by simp
qed

lemma styled_empty: "styled {} c p \<Longrightarrow> c = p"
  by (induction rule: styled.induct) auto

lemma stripANSI_styled:
  assumes "styled (set escapes) c p"
  shows "stripANSI c = p"
proof -
  have "styled (set escapes - set escapes) (stripANSI c) p"
    unfolding stripANSI_def using assms by (intro styled_strip_fold) auto
  then show ?thesis
    by (simp add: styled_empty)
qed

lemma styled_append:
  "styled E c p \<Longrightarrow> styled E c' p' \<Longrightarrow> styled E (c @ c') (p @ p')"
  by (induction rule: styled.induct) (auto intro: styled.intros)

lemma styled_plain: "escFree x \<Longrightarrow> styled E x x"
  using styled_text [OF _ styled_Nil, of x E] by simp

lemma styled_concat:
  "(\<And>x. x \<in> set xs \<Longrightarrow> styled E (f x) (g x)) \<Longrightarrow>
   styled E (concat (map f xs)) (concat (map g xs))"
  by (induction xs) (auto intro: styled_append styled_Nil)

lemma escFree_simps [simp]:
  "escFree []" "escFree (a # s) = (a \<noteq> ESC \<and> escFree s)"
  "escFree (s @ t) = (escFree s \<and> escFree t)" "escFree (rev s) = escFree s"
  by (auto simp: escFree_def)

lemma escFree_digits: "escFree (digits n)"
proof (induction n rule: digits.induct)
  case (1 n)
  have d: "digitByte k \<noteq> ESC" if "k < 10" for k
  proof -
    have "digitByte k \<in> set ''0123456789''"
      unfolding digitByte_def using that by (intro nth_mem) simp
    then show ?thesis
      by (auto simp: ESC_def)
  qed
  show ?case
  proof (cases "n < 10")
    case True
    then show ?thesis
      by (subst digits.simps) (simp add: d)
  next
    case False
    then show ?thesis
      using "1.IH" by (subst digits.simps) (simp add: d)
  qed
qed

lemma escFree_Itoa [simp]: "escFree (Itoa n)"
  by (simp add: Itoa_def escFree_digits ESC_def)

lemma escFree_replicate [simp]: "escFree (replicate n CHR '' '')"
  by (simp add: escFree_def ESC_def)

lemma escFree_padLeft [simp]: "escFree s \<Longrightarrow> escFree (padLeft w s)"
  by (simp add: padLeft_def)

lemma escFree_newline [simp]: "escFree newline"
  by (simp add: newline_def ESC_def)

lemma escFree_sub: "escFree s \<Longrightarrow> set t \<subseteq> set s \<Longrightarrow> escFree t"
  by (auto simp: escFree_def)

lemma escFree_takeWhile: "escFree s \<Longrightarrow> escFree (takeWhile P s)"
  by (rule escFree_sub [of s]) (auto dest: set_takeWhileD)

lemma escFree_dropWhile: "escFree s \<Longrightarrow> escFree (dropWhile P s)"
  by (rule escFree_sub [of s]) (auto dest: set_dropWhileD)

lemma escFree_Base [simp]:
  assumes "escFree path"
  shows "escFree (Base path)"
proof -
  have "escFree (takeWhile (\<lambda>c. c \<noteq> CHR ''/'') (dropWhile (\<lambda>c. c = CHR ''/'') (rev path)))"
    using assms by (intro escFree_takeWhile escFree_dropWhile) simp
  then show ?thesis
    by (simp add: Base_def Let_def ESC_def)
qed

lemma in_escapes [simp]:
  "Reset \<in> set escapes" "Bold \<in> set escapes" "Red \<in> set escapes" "Green \<in> set escapes"
  "Yellow \<in> set escapes" "Blue \<in> set escapes" "Magenta \<in> set escapes"
  "Cyan \<in> set escapes" "White \<in> set escapes" "BrightRed \<in> set escapes"
  "Gray \<in> set escapes"
  by (simp_all add: escapes_def)

lemma styled_codes:
  "styled (set escapes) c p \<Longrightarrow> styled (set escapes) (Reset @ c) p"
  "styled (set escapes) c p \<Longrightarrow> styled (set escapes) (Bold @ c) p"
  "styled (set escapes) c p \<Longrightarrow> styled (set escapes) (Red @ c) p"
  "styled (set escapes) c p \<Longrightarrow> styled (set escapes) (Green @ c) p"
  "styled (set escapes) c p \<Longrightarrow> styled (set escapes) (Yellow @ c) p"
  "styled (set escapes) c p \<Longrightarrow> styled (set escapes) (Blue @ c) p"
  "styled (set escapes) c p \<Longrightarrow> styled (set escapes) (Cyan @ c) p"
  "styled (set escapes) c p \<Longrightarrow> styled (set escapes) (BrightRed @ c) p"
  "styled (set escapes) c p \<Longrightarrow> styled (set escapes) (Gray @ c) p"
  by (simp_all add: styled_code)

lemmas styled_rules = styled_codes styled_text styled_plain

lemma escFree_lits [simp]:
  "ESC \<noteq> CHR '' ''" "CHR '' '' \<noteq> ESC"
  by (simp_all add: ESC_def)

lemma styled_headerLine:
  assumes "escFree (ErrorCode info)" "escFree (ErrorText (Error info))"
  shows "styled (set escapes) (headerLine True info) (headerLine False info)"
  unfolding headerLine_def if_True if_False
  by (intro styled_rules) (simp_all add: assms ESC_def)

lemma styled_locationLine:
  assumes "escFree (File info)"
  shows "styled (set escapes) (locationLine True info) (locationLine False info)"
proof -
  have p: "locationLine False info
      = '' '' @ ''-->'' @ '' '' @ Base (File info) @ '':'' @ Itoa (Line info) @ newline"
    by (simp add: locationLine_def)
  show ?thesis
    unfolding p unfolding locationLine_def Let_def if_True
    by (intro styled_rules) (simp_all add: assms ESC_def)
qed

lemma styled_sourceLineText:
  assumes "escFree (Content sl)"
  shows "styled (set escapes) (sourceLineText True padding sl) (sourceLineText False padding sl)"
proof (cases "IsError sl")
  case True
  have p: "sourceLineText False padding sl
      = padLeft padding (Itoa (Number sl)) @ '' |'' @ '' '' @ Content sl @ newline
        @ replicate padding CHR '' '' @ '' |'' @ '' '' @ ''^'' @ newline"
    using True by (simp add: sourceLineText_def)
  have c: "sourceLineText True padding sl
      = Red @ Bold @ padLeft padding (Itoa (Number sl)) @ Reset @ '' |'' @ Reset @ '' ''
        @ Content sl @ newline
        @ replicate padding CHR '' '' @ '' |'' @ Reset @ '' '' @ Red @ Bold @ Reset @ ''^''
        @ newline"
    using True by (simp add: sourceLineText_def)
  show ?thesis
    unfolding p c by (intro styled_rules) (simp_all add: assms ESC_def)
next
  case False
  have p: "sourceLineText False padding sl
      = padLeft padding (Itoa (Number sl)) @ '' |'' @ '' '' @ Content sl @ newline"
    using False by (simp add: sourceLineText_def)
  have c: "sourceLineText True padding sl
      = Blue @ padLeft padding (Itoa (Number sl)) @ Reset @ '' |'' @ Reset @ '' '' @ Gray
        @ Content sl @ Reset @ newline"
    using False by (simp add: sourceLineText_def)
  show ?thesis
    unfolding p c by (intro styled_rules) (simp_all add: assms ESC_def)
qed

lemma styled_sourceBlock:
  assumes "list_all (\<lambda>sourceLine. escFree (Content sourceLine)) (SourceLines info)"
  shows "styled (set escapes) (sourceBlock (config\<lparr>UseColors := True\<rparr>) info)
           (sourceBlock (config\<lparr>UseColors := False\<rparr>) info)"
proof (cases "ShowSourceCode config \<and> length (SourceLines info) > 0")
  case False
  then show ?thesis
    by (auto simp: sourceBlock_def styled_Nil)
next
  case True
  let ?pad = "length (Itoa (Number (last (SourceLines info))))"
  have lines: "styled (set escapes)
      (concat (map (sourceLineText True ?pad) (SourceLines info)))
      (concat (map (sourceLineText False ?pad) (SourceLines info)))"
    using assms by (intro styled_concat styled_sourceLineText) (simp add: list_all_iff)
  have bar: "styled (set escapes) (''  |'' @ newline) (''  |'' @ newline)"
    by (intro styled_plain) (simp add: ESC_def)
  have "styled (set escapes)
      ((''  |'' @ newline) @ concat (map (sourceLineText True ?pad) (SourceLines info))
         @ (''  |'' @ newline))
      ((''  |'' @ newline) @ concat (map (sourceLineText False ?pad) (SourceLines info))
         @ (''  |'' @ newline))"
    by (intro styled_append bar lines)
  then show ?thesis
    using True by (simp add: sourceBlock_def Let_def)
qed

lemma styled_contextLine:
  assumes "escFree (fst kv)" "escFree (fmtV (snd kv))"
  shows "styled (set escapes) (contextLine True fmtV kv) (contextLine False fmtV kv)"
proof -
  obtain k v where kv: "kv = (k, v)" by (cases kv)
  have p: "contextLine False fmtV (k, v) = ''    '' @ k @ '': '' @ fmtV v @ newline"
    by (simp add: contextLine_def)
  have c: "contextLine True fmtV (k, v)
      = ''    '' @ Cyan @ k @ Reset @ '': '' @ fmtV v @ newline"
    by (simp add: contextLine_def)
  show ?thesis
    unfolding kv p c using assms by (intro styled_rules) (simp_all add: kv ESC_def)
qed

lemma styled_contextBlock:
  assumes "list_all (\<lambda>(k, v). escFree k \<and> escFree (fmtV v)) entries"
  shows "styled (set escapes) (contextBlock True fmtV entries) (contextBlock False fmtV entries)"
proof (cases "length entries > 0")
  case False
  then show ?thesis
    by (simp add: contextBlock_def styled_Nil)
next
  case True
  have lines: "styled (set escapes) (concat (map (contextLine True fmtV) entries))
      (concat (map (contextLine False fmtV) entries))"
    using assms by (intro styled_concat styled_contextLine) (auto simp: list_all_iff)
  have head: "styled (set escapes)
      (''  '' @ Blue @ Bold @ ''='' @ Reset @ '' '' @ Yellow @ Bold @ ''context:'' @ Reset
         @ newline)
      (''  '' @ ''='' @ '' '' @ ''context:'' @ newline)"
    by (intro styled_rules) (simp_all add: ESC_def)
  have nl: "styled (set escapes) newline newline"
    by (intro styled_plain) simp
  have "styled (set escapes)
      ((''  '' @ Blue @ Bold @ ''='' @ Reset @ '' '' @ Yellow @ Bold @ ''context:'' @ Reset
         @ newline) @ concat (map (contextLine True fmtV) entries) @ newline)
      ((''  '' @ ''='' @ '' '' @ ''context:'' @ newline)
         @ concat (map (contextLine False fmtV) entries) @ newline)"
    by (intro styled_append head lines nl)
  then show ?thesis
    using True by (simp add: contextBlock_def)
qed

lemma styled_suggestionBlock:
  assumes "escFree (Suggestion info)"
  shows "styled (set escapes) (suggestionBlock (config\<lparr>UseColors := True\<rparr>) info)
           (suggestionBlock (config\<lparr>UseColors := False\<rparr>) info)"
proof (cases "ShowSuggestions config \<and> Suggestion info \<noteq> []")
  case False
  then show ?thesis
    by (auto simp: suggestionBlock_def styled_Nil)
next
  case True
  have "styled (set escapes)
      (''  '' @ Blue @ Bold @ ''='' @ Reset @ '' '' @ Green @ Bold @ ''help:'' @ Reset @ '' ''
         @ Suggestion info @ newline @ newline)
      (''  '' @ ''='' @ '' '' @ ''help:'' @ '' '' @ Suggestion info @ newline @ newline)"
    by (intro styled_rules) (simp_all add: assms ESC_def)
  then show ?thesis
    using True by (simp add: suggestionBlock_def)
qed

lemma styled_frameText:
  assumes "escFree (FrameFile (snd iframe))" "escFree (FrameFunction (snd iframe))"
  shows "styled (set escapes) (frameText True iframe) (frameText False iframe)"
proof -
  obtain i frame where f: "iframe = (i, frame)" by (cases iframe)
  have p: "frameText False (i, frame)
      = ''   '' @ padLeft 2 (Itoa (int i)) @ '':'' @ '' '' @ FrameFunction frame @ newline
        @ ''          at '' @ Base (FrameFile frame) @ '':'' @ Itoa (FrameLine frame) @ newline"
    by (simp add: frameText_def)
  have c: "frameText True (i, frame)
      = ''   '' @ Gray @ padLeft 2 (Itoa (int i)) @ '':'' @ Reset @ '' '' @ Bold
        @ FrameFunction frame @ Reset @ newline
        @ ''          at '' @ Gray @ Base (FrameFile frame) @ '':'' @ Itoa (FrameLine frame)
        @ Reset @ newline"
    by (simp add: frameText_def)
  show ?thesis
    unfolding f p c using assms by (intro styled_rules) (simp_all add: f ESC_def)
qed

lemma styled_stackBlock:
  assumes "list_all (\<lambda>frame. escFree (FrameFile frame) \<and> escFree (FrameFunction frame))
    (Stack info)"
  shows "styled (set escapes) (stackBlock (config\<lparr>UseColors := True\<rparr>) info)
           (stackBlock (config\<lparr>UseColors := False\<rparr>) info)"
proof (cases "ShowStackTrace config \<and> length (Stack info) > 0")
  case False
  then show ?thesis
    by (auto simp: stackBlock_def styled_Nil)
next
  case True
  have "\<And>x. x \<in> set (enumerate 0 (Stack info)) \<Longrightarrow> snd x \<in> set (Stack info)"
    by (auto simp: enumerate_eq_zip dest: set_zip_rightD)
  then have lines: "styled (set escapes)
      (concat (map (frameText True) (enumerate 0 (Stack info))))
      (concat (map (frameText False) (enumerate 0 (Stack info))))"
    using assms by (intro styled_concat styled_frameText) (auto simp: list_all_iff)
  have head: "styled (set escapes)
      (''  '' @ Blue @ Bold @ ''='' @ Reset @ '' '' @ Yellow @ Bold @ ''stack backtrace:''
         @ Reset @ newline)
      (''  '' @ ''='' @ '' '' @ ''stack backtrace:'' @ newline)"
    by (intro styled_rules) (simp_all add: ESC_def)
  have nl: "styled (set escapes) newline newline"
    by (intro styled_plain) simp
  have "styled (set escapes)
      ((''  '' @ Blue @ Bold @ ''='' @ Reset @ '' '' @ Yellow @ Bold @ ''stack backtrace:''
         @ Reset @ newline) @ concat (map (frameText True) (enumerate 0 (Stack info)))
         @ newline)
      ((''  '' @ ''='' @ '' '' @ ''stack backtrace:'' @ newline)
         @ concat (map (frameText False) (enumerate 0 (Stack info))) @ newline)"
    by (intro styled_append head lines nl)
  then show ?thesis
    using True by (simp add: stackBlock_def)
qed

lemma styled_renderReport:
  assumes "plainRecord fmtV info entries"
  shows "styled (set escapes) (renderReport (config\<lparr>UseColors := True\<rparr>) fmtV info entries)
           (renderReport (config\<lparr>UseColors := False\<rparr>) fmtV info entries)"
proof -
  have h: "styled (set escapes) (headerLine True info) (headerLine False info)"
    using assms by (intro styled_headerLine) (simp_all add: plainRecord_def)
  have l: "styled (set escapes) (locationLine True info) (locationLine False info)"
    using assms by (intro styled_locationLine) (simp add: plainRecord_def)
  have s: "styled (set escapes) (sourceBlock (config\<lparr>UseColors := True\<rparr>) info)
      (sourceBlock (config\<lparr>UseColors := False\<rparr>) info)"
    using assms by (intro styled_sourceBlock) (simp add: plainRecord_def)
  have c: "styled (set escapes) (contextBlock True fmtV entries)
      (contextBlock False fmtV entries)"
    using assms by (intro styled_contextBlock) (simp add: plainRecord_def)
  have g: "styled (set escapes) (suggestionBlock (config\<lparr>UseColors := True\<rparr>) info)
      (suggestionBlock (config\<lparr>UseColors := False\<rparr>) info)"
    using assms by (intro styled_suggestionBlock) (simp add: plainRecord_def)
  have k: "styled (set escapes) (stackBlock (config\<lparr>UseColors := True\<rparr>) info)
      (stackBlock (config\<lparr>UseColors := False\<rparr>) info)"
    using assms by (intro styled_stackBlock) (simp add: plainRecord_def)
  have "styled (set escapes)
      (headerLine True info @ locationLine True info
         @ sourceBlock (config\<lparr>UseColors := True\<rparr>) info @ contextBlock True fmtV entries
         @ suggestionBlock (config\<lparr>UseColors := True\<rparr>) info
         @ stackBlock (config\<lparr>UseColors := True\<rparr>) info)
      (headerLine False info @ locationLine False info
         @ sourceBlock (config\<lparr>UseColors := False\<rparr>) info @ contextBlock False fmtV entries
         @ suggestionBlock (config\<lparr>UseColors := False\<rparr>) info
         @ stackBlock (config\<lparr>UseColors := False\<rparr>) info)"
    by (intro styled_append h l s c g k)
  then show ?thesis
    by (simp add: renderReport_def)
qed

lemma styled_escFree: "styled E c p \<Longrightarrow> escFree p"
  by (induction rule: styled.induct) auto

lemma escFree_noStyling:
  assumes "escFree s"
  shows "noStyling s"
proof -
  have "\<not> Contains s e" if "e \<in> set escapes" for e
  proof
    assume "Contains s e"
    then have "set e \<subseteq> set s"
      by (simp add: Contains_sublist set_mono_sublist)
    moreover from escape_shape [OF that] have "ESC \<in> set e"
      by auto
    ultimately show False
      using assms by (auto simp: escFree_def)
  qed
  then show ?thesis
    by (simp add: noStyling_def list_all_iff)
qed

lemma stripANSI_plain: "escFree s \<Longrightarrow> stripANSI s = s"
  by (intro stripANSI_styled styled_plain)

lemma strip_render:
  assumes "plainRecord fmtV info entries"
  shows "stripANSI (renderReport config fmtV info entries)
      = renderReport (config\<lparr>UseColors := False\<rparr>) fmtV info entries"
    and "escFree (renderReport (config\<lparr>UseColors := False\<rparr>) fmtV info entries)"
proof -
  note s = styled_renderReport [OF assms, of config]
  show e: "escFree (renderReport (config\<lparr>UseColors := False\<rparr>) fmtV info entries)"
    using s by (rule styled_escFree)
  show "stripANSI (renderReport config fmtV info entries)
      = renderReport (config\<lparr>UseColors := False\<rparr>) fmtV info entries"
  proof (cases "UseColors config")
    case True
    then have "config\<lparr>UseColors := True\<rparr> = config"
      by simp
    with s show ?thesis
      by (simp add: stripANSI_styled)
  next
    case False
    then have "config\<lparr>UseColors := False\<rparr> = config"
      by simp
    with e show ?thesis
      by (simp add: stripANSI_plain)
  qed
qed

lemma handleError_log:
  assumes "LogToFile (getConfig Config) \<noteq> []" "appendable w (LogToFile (getConfig Config))"
  shows "files (worldOf (handleError Config fmtV rangeOrder info w)) (LogToFile (getConfig Config))
      = Some ((case files w (LogToFile (getConfig Config)) of None \<Rightarrow> [] | Some old \<Rightarrow> old)
          @ stripANSI (renderReport (getConfig Config) fmtV info (rangeOrder (Context info))))"
  using assms by (simp add: handleError_def logToFile_def Let_def)

text \<open>
  C4 (as amended). For a failure record whose texts are free of the byte ESC, stripping
  the report rendered with colors gives exactly the report rendered without colors. The
  text appended to the log file is always the stripped copy of the console text, for
  every record and configuration. For a record free of ESC the stripped text is the
  report without colors, whatever \<open>UseColors\<close> is, and holds no color code.
\<close>

theorem color_is_presentation_only:
  "(plainRecord fmtV info entries \<longrightarrow>
      stripANSI (renderReport (config\<lparr>UseColors := True\<rparr>) fmtV info entries)
        = renderReport (config\<lparr>UseColors := False\<rparr>) fmtV info entries)
   \<and> (LogToFile (getConfig Config) \<noteq> [] \<and> appendable w (LogToFile (getConfig Config)) \<longrightarrow>
      files (worldOf (handleError Config fmtV rangeOrder info w)) (LogToFile (getConfig Config))
        = Some ((case files w (LogToFile (getConfig Config)) of None \<Rightarrow> [] | Some old \<Rightarrow> old)
            @ stripANSI (renderReport (getConfig Config) fmtV info (rangeOrder (Context info)))))
   \<and> (plainRecord fmtV info entries \<longrightarrow>
      stripANSI (renderReport config fmtV info entries)
        = renderReport (config\<lparr>UseColors := False\<rparr>) fmtV info entries
      \<and> noStyling (stripANSI (renderReport config fmtV info entries)))"
proof (intro conjI impI)
  assume p: "plainRecord fmtV info entries"
  show "stripANSI (renderReport (config\<lparr>UseColors := True\<rparr>) fmtV info entries)
        = renderReport (config\<lparr>UseColors := False\<rparr>) fmtV info entries"
    using strip_render(1) [OF p, of "config\<lparr>UseColors := True\<rparr>"] by simp
  show "stripANSI (renderReport config fmtV info entries)
        = renderReport (config\<lparr>UseColors := False\<rparr>) fmtV info entries"
    by (rule strip_render(1) [OF p])
  show "noStyling (stripANSI (renderReport config fmtV info entries))"
    using strip_render [OF p, of config] by (simp add: escFree_noStyling)
next
  assume "LogToFile (getConfig Config) \<noteq> [] \<and> appendable w (LogToFile (getConfig Config))"
  then show "files (worldOf (handleError Config fmtV rangeOrder info w)) (LogToFile (getConfig Config))
        = Some ((case files w (LogToFile (getConfig Config)) of None \<Rightarrow> [] | Some old \<Rightarrow> old)
            @ stripANSI (renderReport (getConfig Config) fmtV info (rangeOrder (Context info))))"
    by (intro handleError_log) simp_all
qed

lemmas sample_defs = sampleFmtV_def sampleInfo_def sampleConfig_def sampleWorld_def DefaultConfig_def

theorem color_is_presentation_only_witness:
  "plainRecord sampleFmtV sampleInfo [(''user_id'', VInt 42), (''path'', VString ''cfg'')]
   \<and> stripANSI (renderReport (sampleConfig\<lparr>UseColors := True\<rparr>) sampleFmtV sampleInfo
        [(''user_id'', VInt 42), (''path'', VString ''cfg'')])
     = renderReport (sampleConfig\<lparr>UseColors := False\<rparr>) sampleFmtV sampleInfo
        [(''user_id'', VInt 42), (''path'', VString ''cfg'')]
   \<and> noStyling (stripANSI (renderReport sampleConfig sampleFmtV sampleInfo
        [(''user_id'', VInt 42), (''path'', VString ''cfg'')]))
   \<and> files (worldOf (handleError sampleConfig sampleFmtV
        (\<lambda>m. [(''user_id'', VInt 42), (''path'', VString ''cfg'')]) sampleInfo sampleWorld))
        ''err.log''
     = Some (stripANSI (renderReport sampleConfig sampleFmtV sampleInfo
        [(''user_id'', VInt 42), (''path'', VString ''cfg'')]))"
proof -
  let ?E = "[(''user_id'', VInt 42), (''path'', VString ''cfg'')]"
  let ?r = "\<lambda>m::ctxmap. ?E"
  have pr: "plainRecord sampleFmtV sampleInfo ?E"
    by (simp add: plainRecord_def sample_defs ESC_def)
  have g: "getConfig sampleConfig = sampleConfig"
    by (simp add: getConfig_def sample_defs)
  have l: "LogToFile sampleConfig = ''err.log''" "files sampleWorld ''err.log'' = None"
    "appendable sampleWorld ''err.log''"
    by (simp_all add: sample_defs)
  note t1 = color_is_presentation_only
    [where fmtV = sampleFmtV and info = sampleInfo and entries = ?E and config = sampleConfig
      and Config = sampleConfig and w = sampleWorld and rangeOrder = ?r]
  have a: "stripANSI (renderReport (sampleConfig\<lparr>UseColors := True\<rparr>) sampleFmtV sampleInfo ?E)
     = renderReport (sampleConfig\<lparr>UseColors := False\<rparr>) sampleFmtV sampleInfo ?E"
    using t1 [THEN conjunct1] pr by (rule mp)
  have "stripANSI (renderReport sampleConfig sampleFmtV sampleInfo ?E)
        = renderReport (sampleConfig\<lparr>UseColors := False\<rparr>) sampleFmtV sampleInfo ?E
      \<and> noStyling (stripANSI (renderReport sampleConfig sampleFmtV sampleInfo ?E))"
    using t1 [THEN conjunct2, THEN conjunct2] pr by (rule mp)
  then have b: "noStyling (stripANSI (renderReport sampleConfig sampleFmtV sampleInfo ?E))"
    by (rule conjunct2)
  have "LogToFile (getConfig sampleConfig) \<noteq> []
      \<and> appendable sampleWorld (LogToFile (getConfig sampleConfig))"
    unfolding g l by (simp add: l)
  with t1 [THEN conjunct2, THEN conjunct1]
  have "files (worldOf (handleError sampleConfig sampleFmtV ?r sampleInfo sampleWorld))
        (LogToFile (getConfig sampleConfig))
      = Some ((case files sampleWorld (LogToFile (getConfig sampleConfig)) of
                None \<Rightarrow> [] | Some old \<Rightarrow> old)
          @ stripANSI (renderReport (getConfig sampleConfig) sampleFmtV sampleInfo
              (?r (Context sampleInfo))))"
    by (rule mp)
  then have c: "files (worldOf (handleError sampleConfig sampleFmtV ?r sampleInfo sampleWorld))
      ''err.log'' = Some (stripANSI (renderReport sampleConfig sampleFmtV sampleInfo ?E))"
    unfolding g l by simp
  show ?thesis
    using pr a b c by (intro conjI)
qed


lemmas render_defs = renderReport_def headerLine_def locationLine_def sourceBlock_def
  contextBlock_def suggestionBlock_def stackBlock_def

lemma noStyling_D: "noStyling s \<Longrightarrow> e \<in> set escapes \<Longrightarrow> \<not> Contains s e"
  by (simp add: noStyling_def list_all_iff)

text \<open>
  C4 as stated fails for a record that brings color codes of its own. \<open>stripANSI\<close>
  cuts the code out of the failure message as well, so the stripped colored report is
  not the report without colors; and a message that holds a code split around another
  one leaves a code behind in the stripped text.
\<close>

theorem color_strip_counterexample:
  "stripANSI (renderReport
      (DefaultConfig\<lparr>ShowStackTrace := False, ShowSourceCode := False,
         ShowSuggestions := False, UseColors := True\<rparr>)
      sampleFmtV (sampleInfo\<lparr>Error := GoError (Red @ ''boom''), Context := Map.empty\<rparr>) [])
     \<noteq> renderReport
      (DefaultConfig\<lparr>ShowStackTrace := False, ShowSourceCode := False,
         ShowSuggestions := False, UseColors := False\<rparr>)
      sampleFmtV (sampleInfo\<lparr>Error := GoError (Red @ ''boom''), Context := Map.empty\<rparr>) []
   \<and> \<not> noStyling (stripANSI (renderReport
      (DefaultConfig\<lparr>ShowStackTrace := False, ShowSourceCode := False,
         ShowSuggestions := False, UseColors := False\<rparr>)
      sampleFmtV
      (sampleInfo\<lparr>Error := GoError (ESC # ''['' @ Reset @ ''0m''), Context := Map.empty\<rparr>) []))"
proof -
  let ?on = "DefaultConfig\<lparr>ShowStackTrace := False, ShowSourceCode := False,
         ShowSuggestions := False, UseColors := True\<rparr>"
  let ?off = "DefaultConfig\<lparr>ShowStackTrace := False, ShowSourceCode := False,
         ShowSuggestions := False, UseColors := False\<rparr>"
  let ?info = "sampleInfo\<lparr>Error := GoError (Red @ ''boom''), Context := Map.empty\<rparr>"
  let ?nested = "sampleInfo\<lparr>Error := GoError (ESC # ''['' @ Reset @ ''0m''),
         Context := Map.empty\<rparr>"
  have a: "stripANSI (renderReport ?on sampleFmtV ?info [])
      = ''error[FS001]: boom\<newline> --> main.go:10\<newline>''"
    by (simp add: render_defs sample_defs Base_def Itoa_def digits.simps digitByte_def
        newline_def code_defs stripANSI_def escapes_def ESC_def)
  have b: "renderReport ?off sampleFmtV ?info []
      = ''error[FS001]: '' @ Red @ ''boom\<newline> --> main.go:10\<newline>''"
    by (simp add: render_defs sample_defs Base_def Itoa_def digits.simps digitByte_def
        newline_def)
  have c: "stripANSI (renderReport ?off sampleFmtV ?nested [])
      = ''error[FS001]: '' @ Reset @ ''\<newline> --> main.go:10\<newline>''"
    by (simp add: render_defs sample_defs Base_def Itoa_def digits.simps digitByte_def
        newline_def code_defs stripANSI_def escapes_def ESC_def)
  have d: "Contains (''error[FS001]: '' @ Reset @ ''\<newline> --> main.go:10\<newline>'') Reset"
    by (simp add: code_defs ESC_def)
  have "\<not> noStyling (''error[FS001]: '' @ Reset @ ''\<newline> --> main.go:10\<newline>'')"
  proof
    assume n: "noStyling (''error[FS001]: '' @ Reset @ ''\<newline> --> main.go:10\<newline>'')"
    from noStyling_D [OF n in_escapes(1)] d show False
      by (rule notE)
  qed
  moreover have "''error[FS001]: boom\<newline> --> main.go:10\<newline>''
      \<noteq> ''error[FS001]: '' @ Red @ ''boom\<newline> --> main.go:10\<newline>''"
    by (simp add: code_defs ESC_def)
  ultimately show ?thesis
    unfolding a b c by (rule conjI [rotated])
qed

lemma rangeOf_mset:
  assumes "rangeOf m e1" "rangeOf m e2"
  shows "mset e1 = mset e2"
proof -
  have d: "distinct (map fst e1)" "distinct (map fst e2)" "map_of e1 = map_of e2"
    using assms by (simp_all add: rangeOf_def)
  then have "set e1 = set e2"
    by (simp add: map_of_inject_set)
  moreover have "distinct e1" "distinct e2"
    using d(1,2) by (simp_all add: distinct_map)
  ultimately show ?thesis
    by (simp add: set_eq_iff_mset_eq_distinct)
qed

text \<open>
  C5 (as amended). Two renderings of the same record under the same configuration, each
  with an order in which \<open>range\<close> may visit the context map, agree on everything before
  and after the context entries and have the same context lines, in possibly different
  orders; they are equal when the context map has at most one entry.
\<close>

theorem render_fixed_up_to_context_order:
  "rangeOf (Context info) e1 \<and> rangeOf (Context info) e2 \<longrightarrow>
     mset (map (contextLine (UseColors config) fmtV) e1)
       = mset (map (contextLine (UseColors config) fmtV) e2)
     \<and> (\<exists>pre post.
          renderReport config fmtV info e1
            = pre @ concat (map (contextLine (UseColors config) fmtV) e1) @ post
          \<and> renderReport config fmtV info e2
            = pre @ concat (map (contextLine (UseColors config) fmtV) e2) @ post)
     \<and> (length e1 \<le> 1 \<longrightarrow>
          renderReport config fmtV info e1 = renderReport config fmtV info e2)"
proof (intro impI, elim conjE)
  assume r: "rangeOf (Context info) e1" "rangeOf (Context info) e2"
  have m: "mset e1 = mset e2"
    using r by (rule rangeOf_mset)
  then have len: "length e1 = length e2"
    by (rule mset_eq_length)
  have one: "e1 = e2" if "length e1 \<le> 1"
  proof (cases e1)
    case Nil
    with len show ?thesis by simp
  next
    case (Cons x xs)
    with that have "e1 = [x]" by simp
    with m show ?thesis by simp
  qed
  let ?c = "UseColors config"
  let ?pre = "headerLine ?c info @ locationLine ?c info @ sourceBlock config info
      @ (if length e1 > 0 then
           (if ?c then ''  '' @ Blue @ Bold @ ''='' @ Reset @ '' '' @ Yellow @ Bold
              @ ''context:'' @ Reset @ newline
            else ''  = context:'' @ newline)
         else [])"
  let ?post = "(if length e1 > 0 then newline else [])
      @ suggestionBlock config info @ stackBlock config info"
  have p1: "renderReport config fmtV info e1
      = ?pre @ concat (map (contextLine ?c fmtV) e1) @ ?post"
    by (simp add: renderReport_def contextBlock_def)
  have p2: "renderReport config fmtV info e2
      = ?pre @ concat (map (contextLine ?c fmtV) e2) @ ?post"
    unfolding len by (simp add: renderReport_def contextBlock_def)
  have "mset (map (contextLine ?c fmtV) e1) = mset (map (contextLine ?c fmtV) e2)"
    using m by (metis mset_map)
  moreover have "\<exists>pre post.
      renderReport config fmtV info e1 = pre @ concat (map (contextLine ?c fmtV) e1) @ post
      \<and> renderReport config fmtV info e2 = pre @ concat (map (contextLine ?c fmtV) e2) @ post"
    using p1 p2 by blast
  ultimately show "mset (map (contextLine ?c fmtV) e1) = mset (map (contextLine ?c fmtV) e2)
     \<and> (\<exists>pre post.
          renderReport config fmtV info e1 = pre @ concat (map (contextLine ?c fmtV) e1) @ post
          \<and> renderReport config fmtV info e2 = pre @ concat (map (contextLine ?c fmtV) e2) @ post)
     \<and> (length e1 \<le> 1 \<longrightarrow>
          renderReport config fmtV info e1 = renderReport config fmtV info e2)"
    using one by simp
qed

theorem render_fixed_up_to_context_order_witness:
  "rangeOf (Context sampleInfo) [(''user_id'', VInt 42), (''path'', VString ''cfg'')]
   \<and> rangeOf (Context sampleInfo) [(''path'', VString ''cfg''), (''user_id'', VInt 42)]
   \<and> mset (map (contextLine (UseColors sampleConfig) sampleFmtV)
        [(''user_id'', VInt 42), (''path'', VString ''cfg'')])
     = mset (map (contextLine (UseColors sampleConfig) sampleFmtV)
        [(''path'', VString ''cfg''), (''user_id'', VInt 42)])
   \<and> rangeOf (Context (sampleInfo\<lparr>Context := [''path'' \<mapsto> VString ''cfg'']\<rparr>))
        [(''path'', VString ''cfg'')]
   \<and> renderReport sampleConfig sampleFmtV
        (sampleInfo\<lparr>Context := [''path'' \<mapsto> VString ''cfg'']\<rparr>) [(''path'', VString ''cfg'')]
     = renderReport sampleConfig sampleFmtV
        (sampleInfo\<lparr>Context := [''path'' \<mapsto> VString ''cfg'']\<rparr>) [(''path'', VString ''cfg'')]"
proof -
  let ?e1 = "[(''user_id'', VInt 42), (''path'', VString ''cfg'')]"
  let ?e2 = "[(''path'', VString ''cfg''), (''user_id'', VInt 42)]"
  let ?one = "sampleInfo\<lparr>Context := [''path'' \<mapsto> VString ''cfg'']\<rparr>"
  let ?e = "[(''path'', VString ''cfg'')]"
  have r: "rangeOf (Context sampleInfo) ?e1 \<and> rangeOf (Context sampleInfo) ?e2"
    by (auto simp: rangeOf_def sampleInfo_def fun_eq_iff)
  note t = render_fixed_up_to_context_order
    [where info = sampleInfo and ?e1.0 = ?e1 and ?e2.0 = ?e2 and config = sampleConfig
      and fmtV = sampleFmtV]
  from t r have "mset (map (contextLine (UseColors sampleConfig) sampleFmtV) ?e1)
       = mset (map (contextLine (UseColors sampleConfig) sampleFmtV) ?e2)
     \<and> (\<exists>pre post.
          renderReport sampleConfig sampleFmtV sampleInfo ?e1
            = pre @ concat (map (contextLine (UseColors sampleConfig) sampleFmtV) ?e1) @ post
          \<and> renderReport sampleConfig sampleFmtV sampleInfo ?e2
            = pre @ concat (map (contextLine (UseColors sampleConfig) sampleFmtV) ?e2) @ post)
     \<and> (length ?e1 \<le> 1 \<longrightarrow>
          renderReport sampleConfig sampleFmtV sampleInfo ?e1
            = renderReport sampleConfig sampleFmtV sampleInfo ?e2)"
    by (rule mp)
  then have m: "mset (map (contextLine (UseColors sampleConfig) sampleFmtV) ?e1)
       = mset (map (contextLine (UseColors sampleConfig) sampleFmtV) ?e2)"
    by (rule conjunct1)
  have r1: "rangeOf (Context ?one) ?e"
    by (simp add: rangeOf_def)
  then have r2: "rangeOf (Context ?one) ?e \<and> rangeOf (Context ?one) ?e"
    by simp
  note u = render_fixed_up_to_context_order
    [where info = ?one and ?e1.0 = ?e and ?e2.0 = ?e and config = sampleConfig
      and fmtV = sampleFmtV]
  from u r2 have "mset (map (contextLine (UseColors sampleConfig) sampleFmtV) ?e)
       = mset (map (contextLine (UseColors sampleConfig) sampleFmtV) ?e)
     \<and> (\<exists>pre post.
          renderReport sampleConfig sampleFmtV ?one ?e
            = pre @ concat (map (contextLine (UseColors sampleConfig) sampleFmtV) ?e) @ post
          \<and> renderReport sampleConfig sampleFmtV ?one ?e
            = pre @ concat (map (contextLine (UseColors sampleConfig) sampleFmtV) ?e) @ post)
     \<and> (length ?e \<le> 1 \<longrightarrow>
          renderReport sampleConfig sampleFmtV ?one ?e
            = renderReport sampleConfig sampleFmtV ?one ?e)"
    by (rule mp)
  then have "length ?e \<le> 1 \<longrightarrow>
          renderReport sampleConfig sampleFmtV ?one ?e
            = renderReport sampleConfig sampleFmtV ?one ?e"
    by (elim conjE)
  then have s: "renderReport sampleConfig sampleFmtV ?one ?e
            = renderReport sampleConfig sampleFmtV ?one ?e"
    by simp
  from r [THEN conjunct1] r [THEN conjunct2] m r1 s show ?thesis
    by (intro conjI)
qed

text \<open>
  C5 as stated fails: with two context entries, the two orders in which \<open>range\<close> may
  visit the map give two different reports.
\<close>

theorem render_order_counterexample:
  "rangeOf (Context sampleInfo) [(''user_id'', VInt 42), (''path'', VString ''cfg'')]
   \<and> rangeOf (Context sampleInfo) [(''path'', VString ''cfg''), (''user_id'', VInt 42)]
   \<and> renderReport sampleConfig sampleFmtV sampleInfo
        [(''user_id'', VInt 42), (''path'', VString ''cfg'')]
     \<noteq> renderReport sampleConfig sampleFmtV sampleInfo
        [(''path'', VString ''cfg''), (''user_id'', VInt 42)]"
proof -
  have r1: "rangeOf (Context sampleInfo) [(''user_id'', VInt 42), (''path'', VString ''cfg'')]"
    by (auto simp: rangeOf_def sampleInfo_def fun_eq_iff)
  have r2: "rangeOf (Context sampleInfo) [(''path'', VString ''cfg''), (''user_id'', VInt 42)]"
    by (auto simp: rangeOf_def sampleInfo_def fun_eq_iff)
  have "contextBlock (UseColors sampleConfig) sampleFmtV
        [(''user_id'', VInt 42), (''path'', VString ''cfg'')]
      \<noteq> contextBlock (UseColors sampleConfig) sampleFmtV
        [(''path'', VString ''cfg''), (''user_id'', VInt 42)]"
    by (simp add: contextBlock_def contextLine_def sampleConfig_def DefaultConfig_def)
  then have "renderReport sampleConfig sampleFmtV sampleInfo
        [(''user_id'', VInt 42), (''path'', VString ''cfg'')]
     \<noteq> renderReport sampleConfig sampleFmtV sampleInfo
        [(''path'', VString ''cfg''), (''user_id'', VInt 42)]"
    by (simp add: renderReport_def)
  with r1 r2 show ?thesis
    by (intro conjI)
qed

section \<open>Properties of the entry points\<close>

lemma returnedValue_handleError:
  "returnedValue (returning v (handleError Config fmtV rangeOrder info w))
     = (if ExitOnError (getConfig Config) then None else Some v)"
  by (simp add: handleError_def Let_def)

lemma Err_returnedValue:
  "returnedValue (Err env Catch err context w)
     = (if err \<noteq> None \<and> ExitOnError (getConfig Catch) then None else Some err)"
  by (cases err) (simp_all add: Err_def Let_def returnedValue_handleError)

lemma Set_returnedValue:
  "returnedValue (ErrorCatcher_Set env Config err w)
     = (if err \<noteq> None \<and> ExitOnError (getConfig Config) then None else Some err)"
  by (cases err) (simp_all add: ErrorCatcher_Set_def Let_def returnedValue_handleError)

text \<open>
  C10 (as amended). \<open>Err\<close> and \<open>ErrorCatcher.Set\<close> return their argument unchanged
  whenever they return: for a nil error always, for a non-nil error when the effective
  configuration has \<open>ExitOnError\<close> off. With \<open>ExitOnError\<close> on, a non-nil error ends
  the process inside the call, which then returns nothing.
\<close>

theorem report_returns_unless_exit:
  "returnedValue (Err env Catch err context w)
     = (if err \<noteq> None \<and> ExitOnError (getConfig Catch) then None else Some err)
   \<and> returnedValue (ErrorCatcher_Set env Config err w)
     = (if err \<noteq> None \<and> ExitOnError (getConfig Config) then None else Some err)"
  by (simp only: Err_returnedValue Set_returnedValue simp_thms)

text \<open>
  C10 as stated fails under the default configuration: for a non-nil error the call
  does not return the error, the process exits.
\<close>

theorem report_exits_counterexample:
  "returnedValue (Err sampleEnv DefaultConfig (Some (GoError ''boom'')) [] sampleWorld) = None
   \<and> returnedValue (Err sampleEnv DefaultConfig (Some (GoError ''boom'')) [] sampleWorld)
       \<noteq> Some (Some (GoError ''boom''))
   \<and> returnedValue (ErrorCatcher_Set sampleEnv DefaultConfig (Some (GoError ''boom''))
        sampleWorld) \<noteq> Some (Some (GoError ''boom''))"
  by (simp add: Err_returnedValue Set_returnedValue getConfig_def DefaultConfig_def)

text \<open>
  C7. With a nil failure, \<open>Err\<close>, \<open>ErrorCatcher.Set\<close> and every chain of
  \<open>WithContext\<close> calls ended by \<open>Set\<close> return nil and leave the world as it was:
  nothing on the console, nothing in any file, no exit, for every configuration.
\<close>

theorem nil_failure_is_noop:
  "Err env Catch None context w = Returns None w
   \<and> ContextualCatcher_Set env (chain (ErrorCatcher_WithContext Config key val) pairs) None w
       = Returns None w
   \<and> ErrorCatcher_Set env Config None w = Returns None w"
  by (simp add: Err_def ContextualCatcher_Set_def ErrorCatcher_Set_def)

end
